theory Spec2Isabelle
  imports Main "HOL-Library.Word" "HOL-Library.Sublist"
begin

unbundle bit_operations_syntax

section \<open>ChatGPT Navigator content script: data model\<close>

text \<open>
  The development follows the latest revision of the content script (the one with the
  toggle button, per-conversation seen sets and the near-duplicate merge).

  A JavaScript string is a sequence of UTF-16 code units; it is modelled as the list of
  its code units, each a natural number below 65536. \<open>jss\<close> turns an ASCII literal
  into such a list.
\<close>

type_synonym jsstring = "nat list"

definition jss :: "string \<Rightarrow> jsstring" where
  "jss s = map of_char s"

text \<open>
  \<open>String.prototype.toLowerCase\<close> is the platform's Unicode case mapping. It is not
  part of the script, so every function that lower-cases takes it as the parameter
  \<open>lc\<close>. \<open>asciiLower\<close> is the mapping restricted to ASCII text (where it agrees with
  the platform's); it is used to evaluate the script on concrete ASCII pages.
\<close>

type_synonym lower = "jsstring \<Rightarrow> jsstring"

definition asciiLower :: lower where
  "asciiLower s = map (\<lambda>c. if 65 \<le> c \<and> c \<le> 90 then c + 32 else c) s"

subsection \<open>strHashHex\<close>

text \<open>
  \<^verbatim>\<open>let h = 5381; for (...) h = (h * 33) ^ str.charCodeAt(i); return (h >>> 0).toString(16);\<close>
  The operator \<^verbatim>\<open>^\<close> converts both operands to 32-bit integers, so after every step
  \<open>h\<close> is a 32-bit value and \<open>h * 33\<close> is an exact integer (below \<open>2 ^ 53\<close>) that is
  reduced modulo \<open>2 ^ 32\<close>: the loop is arithmetic on 32-bit words. \<^verbatim>\<open>h >>> 0\<close> reads
  the word as unsigned, \<^verbatim>\<open>toString(16)\<close> prints it in lower-case hexadecimal without
  leading zeros.
\<close>

definition hexDigit :: "nat \<Rightarrow> nat" where
  "hexDigit d = (if d < 10 then 48 + d else 87 + d)"

fun toString16 :: "nat \<Rightarrow> jsstring" where
  "toString16 n = (if n < 16 then [hexDigit n] else toString16 (n div 16) @ [hexDigit (n mod 16)])"

declare toString16.simps [simp del]

definition hashStep :: "32 word \<Rightarrow> nat \<Rightarrow> 32 word" where
  "hashStep h c = (h * 33) XOR (word_of_nat c)"

definition strHash :: "jsstring \<Rightarrow> 32 word" where
  "strHash str = foldl hashStep 5381 str"

definition strHashHex :: "jsstring \<Rightarrow> jsstring" where
  "strHashHex str = toString16 (unat (strHash str))"

subsection \<open>getConversationKey\<close>

text \<open>
  \<open>location.origin\<close> and \<open>location.pathname\<close> are strings; no operation of the
  \<^verbatim>\<open>try\<close> block throws on strings, so the \<^verbatim>\<open>catch\<close> branch is not modelled.
\<close>

record location =
  origin :: jsstring
  pathname :: jsstring

fun splitOn :: "nat \<Rightarrow> jsstring \<Rightarrow> jsstring list" where
  "splitOn d [] = [[]]"
| "splitOn d (c # cs) =
     (if c = d then [] # splitOn d cs
      else (case splitOn d cs of [] \<Rightarrow> [[c]] | w # ws \<Rightarrow> (c # w) # ws))"

fun indexOf :: "'a list \<Rightarrow> 'a \<Rightarrow> nat option" where
  "indexOf [] x = None"
| "indexOf (y # ys) x = (if y = x then Some 0 else map_option Suc (indexOf ys x))"

definition getConversationKey :: "location \<Rightarrow> jsstring" where
  "getConversationKey loc =
     (let p = pathname loc;
          parts = filter (\<lambda>s. s \<noteq> []) (splitOn 47 p)
      in case indexOf parts (jss ''chat'') of
           Some chatIdx \<Rightarrow>
             if length parts > chatIdx + 1 then parts ! (chatIdx + 1) else origin loc @ p
         | None \<Rightarrow> origin loc @ p)"

subsection \<open>normalizeText\<close>

text \<open>
  The code units matched by \<^verbatim>\<open>\s\<close> in a regular expression; \<^verbatim>\<open>trim()\<close> strips
  the same set (white space and line terminators).
\<close>

definition isSpace :: "nat \<Rightarrow> bool" where
  "isSpace c \<longleftrightarrow>
     c \<in> set [9, 10, 11, 12, 13, 32, 160, 5760, 8232, 8233, 8239, 8287, 12288, 65279]
     \<or> (8192 \<le> c \<and> c \<le> 8202)"

definition trim :: "jsstring \<Rightarrow> jsstring" where
  "trim s = rev (dropWhile isSpace (rev (dropWhile isSpace s)))"

text \<open>\<^verbatim>\<open>s.replace(/\s+/g, " ")\<close>: every maximal run of white space becomes one space.\<close>

function collapseWs :: "jsstring \<Rightarrow> jsstring" where
  "collapseWs [] = []"
| "collapseWs (c # cs) =
     (if isSpace c then 32 # collapseWs (dropWhile isSpace cs) else c # collapseWs cs)"
  by pat_completeness auto
termination
  by (relation "measure length") (auto simp: length_dropWhile_le less_Suc_eq_le)

definition normalizeText :: "lower \<Rightarrow> jsstring \<Rightarrow> jsstring" where
  "normalizeText lc s = (if s = [] then [] else lc (trim (collapseWs s)))"

subsection \<open>The page and the scanner\<close>

text \<open>
  An element of the host page, with what the script reads and writes: the
  \<^verbatim>\<open>data-testid\<close> attribute, \<open>innerText\<close> (\<open>None\<close> where the property is undefined),
  the \<^verbatim>\<open>data-nav-signature\<close> attribute (\<open>None\<close> where \<open>getAttribute\<close> returns null) and
  the \<open>id\<close> property (empty when the element has none). The document is the list of
  its elements in document order; an element is referred to by its position.
\<close>

record element =
  testid :: "jsstring option"
  innerText :: "jsstring option"
  navSignature :: "jsstring option"
  elemId :: jsstring

record item =
  signature :: jsstring
  itemId :: jsstring
  itemText :: jsstring
  norm :: jsstring
  rawText :: jsstring
  elementRef :: nat

definition isUserMessage :: "element \<Rightarrow> bool" where
  "isUserMessage e \<longleftrightarrow> testid e = Some (jss ''user-message'')"

text \<open>The body of the \<^verbatim>\<open>forEach\<close> callback of \<open>getAllMessagesForCurrentConv\<close>.\<close>

definition trimmedInnerText :: "element \<Rightarrow> jsstring" where
  "trimmedInnerText node = trim (case innerText node of None \<Rightarrow> [] | Some s \<Rightarrow> s)"

definition hasSignature :: "element \<Rightarrow> bool" where
  "hasSignature node \<longleftrightarrow> (case navSignature node of None \<Rightarrow> False | Some s \<Rightarrow> s \<noteq> [])"

definition computedSignature :: "jsstring \<Rightarrow> jsstring" where
  "computedSignature nrm = jss ''s_'' @ strHashHex nrm"

definition scanNode :: "lower \<Rightarrow> jsstring \<Rightarrow> nat \<Rightarrow> element \<Rightarrow> element \<times> item option" where
  "scanNode lc convKey idx node =
     (let raw = trimmedInnerText node
      in if raw = [] then (node, None)
         else
           let nrm = take 400 (normalizeText lc raw);
               sig = (case navSignature node of
                        None \<Rightarrow> computedSignature nrm
                      | Some s \<Rightarrow> if s = [] then computedSignature nrm else s);
               node1 = (if hasSignature node then node else node\<lparr>navSignature := Some sig\<rparr>);
               node2 = (if elemId node1 = []
                        then node1\<lparr>elemId := jss ''cgpn-'' @ convKey @ jss ''-'' @ sig\<rparr>
                        else node1)
           in (node2,
               Some \<lparr>signature = sig,
                     itemId = elemId node2,
                     itemText = (if length raw > 80 then take 80 raw @ [8230] else raw),
                     norm = nrm,
                     rawText = raw,
                     elementRef = idx\<rparr>))"

text \<open>
  \<open>scanNodes lc convKey i es\<close> runs the callback over the elements \<open>es\<close> that match the
  selector \<^verbatim>\<open>[data-testid="user-message"]\<close>, in document order; \<open>i\<close> is the position of
  the first of them in the document. It returns the elements as the callback leaves
  them and the array \<open>items\<close>.
\<close>

fun scanNodes :: "lower \<Rightarrow> jsstring \<Rightarrow> nat \<Rightarrow> element list \<Rightarrow> element list \<times> item list" where
  "scanNodes lc convKey i [] = ([], [])"
| "scanNodes lc convKey i (e # es) =
     (let (es', its) = scanNodes lc convKey (Suc i) es
      in if isUserMessage e
         then (case scanNode lc convKey i e of
                 (e', None) \<Rightarrow> (e' # es', its)
               | (e', Some it) \<Rightarrow> (e' # es', it # its))
         else (e # es', its))"

text \<open>What the scan makes of the element at position \<open>j\<close> of the document.\<close>

definition scanAt :: "lower \<Rightarrow> jsstring \<Rightarrow> element list \<Rightarrow> nat \<Rightarrow> item option" where
  "scanAt lc k es j = (if isUserMessage (es ! j) then snd (scanNode lc k j (es ! j)) else None)"

subsection \<open>uniqueOrdered\<close>

definition startsWith :: "jsstring \<Rightarrow> jsstring \<Rightarrow> bool" where
  "startsWith s k \<longleftrightarrow> prefix k s"

definition nearDup :: "jsstring \<Rightarrow> jsstring \<Rightarrow> bool" where
  "nearDup s key \<longleftrightarrow> s = key \<or> startsWith s key \<or> startsWith key s"

definition normKey :: "item \<Rightarrow> jsstring" where
  "normKey it = take 200 (norm it)"

text \<open>
  The loop of \<open>uniqueOrdered\<close>, with the array \<open>ordered\<close> and the set \<open>seenNorms\<close>
  (a key is added only when it is not in the set yet, so the list has no duplicates).
\<close>

fun uniqueLoop :: "item list \<Rightarrow> item list \<Rightarrow> jsstring list \<Rightarrow> item list" where
  "uniqueLoop [] ordered seenNorms = ordered"
| "uniqueLoop (it # items) ordered seenNorms =
     (let key = normKey it;
          duplicate = list_ex (\<lambda>s. nearDup s key) seenNorms
      in if \<not> duplicate then uniqueLoop items (ordered @ [it]) (seenNorms @ [key])
         else uniqueLoop items ordered seenNorms)"

definition uniqueOrdered :: "item list \<Rightarrow> item list" where
  "uniqueOrdered items = uniqueLoop items [] []"

subsection \<open>The script's state\<close>

text \<open>
  An entry of the sidebar list: the \<open>id\<close> and \<open>textContent\<close> of the
  \<^verbatim>\<open>div.nav-item\<close>, and the item \<open>q\<close> its click handler holds. The children of
  \<^verbatim>\<open>#chatgpt-navigator-list\<close> are entries and the \<^verbatim>\<open>div.nav-empty\<close> placeholder.
\<close>

record entry =
  entryDomId :: jsstring
  entryText :: jsstring
  entryItem :: item

datatype child = NavEmpty | NavItem entry

record sidebarEl =
  display :: jsstring
  listChildren :: "child list"

datatype logmsg =
    LogOpened nat
  | LogAppended nat
  | LogDetected nat
  | LogInitialMark nat jsstring
  | LogRootFound
  | LogConvChanged jsstring jsstring
  | WarnNoRoot

text \<open>
  The state the script works on. Of the host page: the address, the elements, and
  whether each of the three chat-root selectors (\<^verbatim>\<open>main\<close>, \<^verbatim>\<open>[role="main"]\<close>,
  \<^verbatim>\<open>div[class*="chat"]\<close>) finds an element. Of the script: the toggle button (absent, or
  present with the value of \<^verbatim>\<open>aria-expanded\<close>), the sidebar, the style element, the
  registry \<open>convSeen\<close> (a \<open>Map\<close> from conversation key to a \<open>Set\<close> of signatures),
  the variable \<open>lastConv\<close>, whether the document listeners, the mutation observer and
  the conversation poll are installed, whether the readiness interval is still
  running, its counter \<open>attempts\<close>, and the console output.

  The host page is taken to have no element of its own under the ids of the toggle
  button, the sidebar and the style element.
\<close>

record state =
  loc :: location
  elements :: "element list"
  mainEl :: bool
  roleMain :: bool
  chatDiv :: bool
  toggleBtn :: "bool option"
  sidebar :: "sidebarEl option"
  styleEl :: bool
  convSeen :: "jsstring \<rightharpoonup> jsstring set"
  lastConv :: jsstring
  installed :: bool
  readyTimer :: bool
  attempts :: nat
  logs :: "logmsg list"

definition consoleLog :: "logmsg \<Rightarrow> state \<Rightarrow> state" where
  "consoleLog m st = st\<lparr>logs := logs st @ [m]\<rparr>"

definition ensureConvSet :: "jsstring \<Rightarrow> state \<Rightarrow> jsstring set \<times> state" where
  "ensureConvSet key st =
     (case convSeen st key of
        None \<Rightarrow> ({}, st\<lparr>convSeen := (convSeen st)(key \<mapsto> {})\<rparr>)
      | Some s \<Rightarrow> (s, st))"

text \<open>
  \<open>seen.add(sig)\<close>, where \<open>seen\<close> is the set that \<open>ensureConvSet key\<close> returned: the
  set object registered under \<open>key\<close> is updated in place.
\<close>

definition seenAdd :: "jsstring \<Rightarrow> state \<Rightarrow> jsstring \<Rightarrow> state" where
  "seenAdd key st sig =
     (case convSeen st key of
        None \<Rightarrow> st
      | Some s \<Rightarrow> st\<lparr>convSeen := (convSeen st)(key \<mapsto> insert sig s)\<rparr>)"

definition getAllMessagesForCurrentConv :: "lower \<Rightarrow> state \<Rightarrow> item list \<times> state" where
  "getAllMessagesForCurrentConv lc st =
     (let convKey = getConversationKey (loc st);
          (es', items) = scanNodes lc convKey 0 (elements st)
      in (items, st\<lparr>elements := es'\<rparr>))"

subsection \<open>UI helpers\<close>

definition ensureToggleButton :: "state \<Rightarrow> state" where
  "ensureToggleButton st =
     (case toggleBtn st of None \<Rightarrow> st\<lparr>toggleBtn := Some False\<rparr> | Some b \<Rightarrow> st)"

definition ensureSidebar :: "state \<Rightarrow> state" where
  "ensureSidebar st =
     (case sidebar st of
        None \<Rightarrow> st\<lparr>sidebar := Some \<lparr>display = [], listChildren = []\<rparr>\<rparr>
      | Some sb \<Rightarrow> st)"

definition addStyles :: "state \<Rightarrow> state" where
  "addStyles st = (if styleEl st then st else st\<lparr>styleEl := True\<rparr>)"

definition listOf :: "state \<Rightarrow> child list" where
  "listOf st = (case sidebar st of None \<Rightarrow> [] | Some sb \<Rightarrow> listChildren sb)"

definition setList :: "child list \<Rightarrow> state \<Rightarrow> state" where
  "setList cs st = st\<lparr>sidebar := map_option (\<lambda>sb. sb\<lparr>listChildren := cs\<rparr>) (sidebar st)\<rparr>"

definition setDisplay :: "jsstring \<Rightarrow> state \<Rightarrow> state" where
  "setDisplay d st = st\<lparr>sidebar := map_option (\<lambda>sb. sb\<lparr>display := d\<rparr>) (sidebar st)\<rparr>"

definition setExpanded :: "bool \<Rightarrow> state \<Rightarrow> state" where
  "setExpanded b st = st\<lparr>toggleBtn := map_option (\<lambda>_. b) (toggleBtn st)\<rparr>"

text \<open>
  The ids present in the document: outside the sidebar list, those of the host page's
  elements and of the elements the script has injected; in the list, those of the
  entries. \<open>document.getElementById(i)\<close> is non-null exactly for these.
\<close>

fun childIds :: "child list \<Rightarrow> jsstring list" where
  "childIds [] = []"
| "childIds (NavEmpty # cs) = childIds cs"
| "childIds (NavItem e # cs) = entryDomId e # childIds cs"

definition injectedIds :: "state \<Rightarrow> jsstring list" where
  "injectedIds st =
     (if toggleBtn st \<noteq> None then [jss ''cgpn-toggle''] else []) @
     (if sidebar st \<noteq> None
      then map jss [''chatgpt-navigator'', ''chatgpt-navigator-header'',
                    ''chatgpt-navigator-title'', ''chatgpt-navigator-close'',
                    ''chatgpt-navigator-list'', ''chatgpt-navigator-footer'']
      else []) @
     (if styleEl st then [jss ''chatgpt-navigator-style''] else [])"

definition outsideIds :: "state \<Rightarrow> jsstring list" where
  "outsideIds st = filter (\<lambda>i. i \<noteq> []) (map elemId (elements st)) @ injectedIds st"

definition documentIds :: "state \<Rightarrow> jsstring list" where
  "documentIds st = outsideIds st @ childIds (listOf st)"

definition hasElementById :: "state \<Rightarrow> jsstring \<Rightarrow> bool" where
  "hasElementById st i \<longleftrightarrow> i \<in> set (documentIds st)"

definition itemDomId :: "item \<Rightarrow> jsstring" where
  "itemDomId q = jss ''cgpn-item-'' @ signature q"

definition navItem :: "item \<Rightarrow> child" where
  "navItem q =
     NavItem \<lparr>entryDomId = itemDomId q,
             entryText = (if itemText q = [] then jss ''Question'' else itemText q),
             entryItem = q\<rparr>"

text \<open>The \<^verbatim>\<open>for (const q of items)\<close> loop of \<open>updateSidebar\<close>.\<close>

fun renderItems :: "item list \<Rightarrow> state \<Rightarrow> state" where
  "renderItems [] st = st"
| "renderItems (q # qs) st =
     (if hasElementById st (itemDomId q) then renderItems qs st
      else renderItems qs (setList (listOf st @ [navItem q]) st))"

definition updateSidebar :: "item list \<Rightarrow> bool \<Rightarrow> state \<Rightarrow> state" where
  "updateSidebar items appendOpt st =
     (let st1 = ensureSidebar st;
          st2 = (if \<not> appendOpt then setList [] st1 else st1)
      in if items = [] \<and> \<not> appendOpt then setList (listOf st2 @ [NavEmpty]) st2
         else renderItems items st2)"

definition toggleSidebar :: "lower \<Rightarrow> bool \<Rightarrow> state \<Rightarrow> state" where
  "toggleSidebar lc show st =
     (let st1 = addStyles (ensureSidebar (ensureToggleButton st))
      in if show then
           let st2 = setExpanded True (setDisplay (jss ''block'') st1);
               (all, st3) = getAllMessagesForCurrentConv lc st2;
               unique = uniqueOrdered all;
               convKey = getConversationKey (loc st3);
               (seen, st4) = ensureConvSet convKey st3;
               st5 = foldl (seenAdd convKey) st4 (map signature unique);
               st6 = updateSidebar unique False st5
           in consoleLog (LogOpened (length unique)) st6
         else setList [] (setExpanded False (setDisplay (jss ''none'') st1)))"

subsection \<open>Detection\<close>

definition sidebarVisible :: "state \<Rightarrow> bool" where
  "sidebarVisible st \<longleftrightarrow>
     (case sidebar st of None \<Rightarrow> False | Some sb \<Rightarrow> display sb = jss ''block'')"

definition appendNewMessagesForCurrentConv :: "lower \<Rightarrow> state \<Rightarrow> nat \<times> state" where
  "appendNewMessagesForCurrentConv lc st =
     (let convKey = getConversationKey (loc st);
          (seen, st1) = ensureConvSet convKey st;
          (all, st2) = getAllMessagesForCurrentConv lc st1;
          newItems = filter (\<lambda>it. signature it \<notin> seen) all
      in if newItems = [] then (0, st2)
         else
           let merged = uniqueOrdered newItems;
               st3 = foldl (seenAdd convKey) st2 (map signature merged)
           in if sidebarVisible st3
              then (length merged,
                    consoleLog (LogAppended (length merged)) (updateSidebar merged True st3))
              else (length merged, consoleLog (LogDetected (length merged)) st3))"

definition initialSilentMark :: "lower \<Rightarrow> state \<Rightarrow> state" where
  "initialSilentMark lc st =
     (let convKey = getConversationKey (loc st);
          (seen, st1) = ensureConvSet convKey st;
          (all, st2) = getAllMessagesForCurrentConv lc st1;
          st3 = foldl (seenAdd convKey) st2 (map signature all)
      in consoleLog (LogInitialMark (length all) convKey) st3)"

subsection \<open>setupObserverAndHandlers\<close>

text \<open>
  What the host page shows at one moment. The host changes its page between the
  script's callbacks; \<open>setPage\<close> is such a change.
\<close>

record hostpage =
  pageLoc :: location
  pageElements :: "element list"
  pageMain :: bool
  pageRoleMain :: bool
  pageChatDiv :: bool

definition setPage :: "hostpage \<Rightarrow> state \<Rightarrow> state" where
  "setPage p st =
     st\<lparr>loc := pageLoc p, elements := pageElements p, mainEl := pageMain p,
        roleMain := pageRoleMain p, chatDiv := pageChatDiv p\<rparr>"

definition hostRoot :: "hostpage \<Rightarrow> bool" where
  "hostRoot p \<longleftrightarrow> pageMain p \<or> pageRoleMain p \<or> pageChatDiv p"

definition chatRootFound :: "state \<Rightarrow> bool" where
  "chatRootFound st \<longleftrightarrow> mainEl st \<or> roleMain st \<or> chatDiv st"

text \<open>
  One run of the callback of the 250 ms readiness interval. \<open>installed\<close> stands for
  the document click and keydown listeners, the mutation observer and the 800 ms
  conversation poll, which the callback installs together.
\<close>

definition readyIntervalMs :: nat where
  "readyIntervalMs = 250"

definition readinessTick :: "lower \<Rightarrow> state \<Rightarrow> state" where
  "readinessTick lc st =
     (let st1 = st\<lparr>attempts := attempts st + 1\<rparr>
      in if chatRootFound st1 then
           let st2 = consoleLog LogRootFound (st1\<lparr>readyTimer := False\<rparr>);
               st3 = ensureToggleButton st2;
               st4 = initialSilentMark lc (st3\<lparr>installed := True\<rparr>)
           in st4\<lparr>lastConv := getConversationKey (loc st4)\<rparr>
         else if attempts st1 > 40 then consoleLog WarnNoRoot (st1\<lparr>readyTimer := False\<rparr>)
         else st1)"

subsection \<open>Frame conditions\<close>

text \<open>
  Which parts of the state each operation leaves alone. The termination of the
  readiness interval rests on them: setting the script up touches neither the timer
  nor the counter.
\<close>

lemma consoleLog_frame [simp]:
  "loc (consoleLog m st) = loc st" "elements (consoleLog m st) = elements st"
  "toggleBtn (consoleLog m st) = toggleBtn st" "sidebar (consoleLog m st) = sidebar st"
  "styleEl (consoleLog m st) = styleEl st" "convSeen (consoleLog m st) = convSeen st"
  "lastConv (consoleLog m st) = lastConv st" "installed (consoleLog m st) = installed st"
  "readyTimer (consoleLog m st) = readyTimer st" "attempts (consoleLog m st) = attempts st"
  "logs (consoleLog m st) = logs st @ [m]"
  by (simp_all add: consoleLog_def)

lemma ensureConvSet_frame [simp]:
  "loc (snd (ensureConvSet k st)) = loc st" "elements (snd (ensureConvSet k st)) = elements st"
  "toggleBtn (snd (ensureConvSet k st)) = toggleBtn st" "sidebar (snd (ensureConvSet k st)) = sidebar st"
  "styleEl (snd (ensureConvSet k st)) = styleEl st"
  "lastConv (snd (ensureConvSet k st)) = lastConv st" "installed (snd (ensureConvSet k st)) = installed st"
  "readyTimer (snd (ensureConvSet k st)) = readyTimer st" "attempts (snd (ensureConvSet k st)) = attempts st"
  "logs (snd (ensureConvSet k st)) = logs st"
  by (simp_all add: ensureConvSet_def split: option.splits)

lemma seenAdd_frame [simp]:
  "loc (seenAdd k st s) = loc st" "elements (seenAdd k st s) = elements st"
  "toggleBtn (seenAdd k st s) = toggleBtn st" "sidebar (seenAdd k st s) = sidebar st"
  "styleEl (seenAdd k st s) = styleEl st"
  "lastConv (seenAdd k st s) = lastConv st" "installed (seenAdd k st s) = installed st"
  "readyTimer (seenAdd k st s) = readyTimer st" "attempts (seenAdd k st s) = attempts st"
  "logs (seenAdd k st s) = logs st"
  by (simp_all add: seenAdd_def split: option.splits)

lemma foldl_seenAdd_frame [simp]:
  "loc (foldl (seenAdd k) st ss) = loc st" "elements (foldl (seenAdd k) st ss) = elements st"
  "toggleBtn (foldl (seenAdd k) st ss) = toggleBtn st" "sidebar (foldl (seenAdd k) st ss) = sidebar st"
  "styleEl (foldl (seenAdd k) st ss) = styleEl st"
  "lastConv (foldl (seenAdd k) st ss) = lastConv st" "installed (foldl (seenAdd k) st ss) = installed st"
  "readyTimer (foldl (seenAdd k) st ss) = readyTimer st" "attempts (foldl (seenAdd k) st ss) = attempts st"
  "logs (foldl (seenAdd k) st ss) = logs st"
  by (induction ss arbitrary: st; simp)+

lemma getAll_frame [simp]:
  "loc (snd (getAllMessagesForCurrentConv lc st)) = loc st"
  "toggleBtn (snd (getAllMessagesForCurrentConv lc st)) = toggleBtn st"
  "sidebar (snd (getAllMessagesForCurrentConv lc st)) = sidebar st"
  "styleEl (snd (getAllMessagesForCurrentConv lc st)) = styleEl st"
  "convSeen (snd (getAllMessagesForCurrentConv lc st)) = convSeen st"
  "lastConv (snd (getAllMessagesForCurrentConv lc st)) = lastConv st"
  "installed (snd (getAllMessagesForCurrentConv lc st)) = installed st"
  "readyTimer (snd (getAllMessagesForCurrentConv lc st)) = readyTimer st"
  "attempts (snd (getAllMessagesForCurrentConv lc st)) = attempts st"
  "logs (snd (getAllMessagesForCurrentConv lc st)) = logs st"
  by (simp_all add: getAllMessagesForCurrentConv_def Let_def split: prod.splits)

lemma ensureToggleButton_frame [simp]:
  "loc (ensureToggleButton st) = loc st" "elements (ensureToggleButton st) = elements st"
  "sidebar (ensureToggleButton st) = sidebar st"
  "styleEl (ensureToggleButton st) = styleEl st" "convSeen (ensureToggleButton st) = convSeen st"
  "lastConv (ensureToggleButton st) = lastConv st" "installed (ensureToggleButton st) = installed st"
  "readyTimer (ensureToggleButton st) = readyTimer st" "attempts (ensureToggleButton st) = attempts st"
  "logs (ensureToggleButton st) = logs st"
  by (simp_all add: ensureToggleButton_def split: option.splits)

lemma initialSilentMark_frame [simp]:
  "loc (initialSilentMark lc st) = loc st"
  "toggleBtn (initialSilentMark lc st) = toggleBtn st"
  "sidebar (initialSilentMark lc st) = sidebar st"
  "styleEl (initialSilentMark lc st) = styleEl st"
  "lastConv (initialSilentMark lc st) = lastConv st"
  "installed (initialSilentMark lc st) = installed st"
  "readyTimer (initialSilentMark lc st) = readyTimer st"
  "attempts (initialSilentMark lc st) = attempts st"
  by (simp_all add: initialSilentMark_def Let_def split_beta)

text \<open>
  The interval: the callback runs, on the page as it is at that tick, until it clears
  the timer. \<open>pages k\<close> is the host page at the \<open>k\<close>-th tick.
\<close>

function readinessPoll :: "lower \<Rightarrow> (nat \<Rightarrow> hostpage) \<Rightarrow> state \<Rightarrow> state" where
  "readinessPoll lc pages st =
     (let st1 = readinessTick lc (setPage (pages (attempts st + 1)) st)
      in if readyTimer st1 then readinessPoll lc pages st1 else st1)"
  by pat_completeness auto
termination
  by (relation "measure (\<lambda>(lc, pages, st). 41 - attempts st)")
     (auto simp: readinessTick_def setPage_def Let_def split: if_splits)

declare readinessPoll.simps [simp del]

definition setupObserverAndHandlers :: "lower \<Rightarrow> (nat \<Rightarrow> hostpage) \<Rightarrow> state \<Rightarrow> state" where
  "setupObserverAndHandlers lc pages st =
     readinessPoll lc pages (st\<lparr>attempts := 0, readyTimer := True\<rparr>)"

text \<open>One run of the callback of the 800 ms conversation poll.\<close>

definition convPollTick :: "lower \<Rightarrow> state \<Rightarrow> state" where
  "convPollTick lc st =
     (let cur = getConversationKey (loc st)
      in if cur \<noteq> lastConv st then
           let st1 = consoleLog (LogConvChanged (lastConv st) cur) st;
               st2 = st1\<lparr>lastConv := cur\<rparr>;
               st3 = initialSilentMark lc st2
           in if sidebar st3 \<noteq> None then setList [] st3 else st3
         else st)"

text \<open>
  The callbacks that run once the script is set up: a click on the toggle button, on
  the sidebar's close button, elsewhere in the document, the Escape key, the debounced
  mutation callback, the conversation poll; and a change of the page by the host.
\<close>

datatype event =
    ToggleClick
  | CloseClick
  | OutsideClick
  | EscapeKey
  | Mutation
  | ConvPoll
  | HostChange hostpage

fun step :: "lower \<Rightarrow> state \<Rightarrow> event \<Rightarrow> state" where
  "step lc st ToggleClick =
     (case toggleBtn st of None \<Rightarrow> st | Some expanded \<Rightarrow> toggleSidebar lc (\<not> expanded) st)"
| "step lc st CloseClick =
     (if sidebar st = None then st else toggleSidebar lc False st)"
| "step lc st OutsideClick =
     (if sidebar st = None \<or> toggleBtn st = None then st else toggleSidebar lc False st)"
| "step lc st EscapeKey = toggleSidebar lc False st"
| "step lc st Mutation = snd (appendNewMessagesForCurrentConv lc st)"
| "step lc st ConvPoll = convPollTick lc st"
| "step lc st (HostChange p) = setPage p st"

definition run :: "lower \<Rightarrow> state \<Rightarrow> event list \<Rightarrow> state" where
  "run lc st evs = foldl (step lc) st evs"

text \<open>The signatures registered under a key (none when the key has no set).\<close>

definition seenOf :: "state \<Rightarrow> jsstring \<Rightarrow> jsstring set" where
  "seenOf st key = (case convSeen st key of None \<Rightarrow> {} | Some s \<Rightarrow> s)"

text \<open>
  The messages a run of the mutation callback detects: the scanned items whose signature
  is not in the current conversation's set, merged.
\<close>

definition detected :: "lower \<Rightarrow> state \<Rightarrow> item list" where
  "detected lc st =
     uniqueOrdered
       (filter (\<lambda>it. signature it \<notin> seenOf st (getConversationKey (loc st)))
          (fst (getAllMessagesForCurrentConv lc st)))"

text \<open>
  The list that the loop of \<open>updateSidebar\<close> makes of the list \<open>cs\<close>, given the ids
  \<open>out\<close> that the document has outside the list.
\<close>

fun renderList :: "jsstring list \<Rightarrow> item list \<Rightarrow> child list \<Rightarrow> child list" where
  "renderList out [] cs = cs"
| "renderList out (q # qs) cs =
     (if itemDomId q \<in> set out \<union> set (childIds cs) then renderList out qs cs
      else renderList out qs (cs @ [navItem q]))"

text \<open>Closing the panel and opening it again.\<close>

definition reopen :: "lower \<Rightarrow> state \<Rightarrow> state" where
  "reopen lc st = toggleSidebar lc True (toggleSidebar lc False st)"

text \<open>The entries of a sidebar list, and the signatures of the items they were made of.\<close>

fun entriesOf :: "child list \<Rightarrow> entry list" where
  "entriesOf [] = []"
| "entriesOf (NavEmpty # cs) = entriesOf cs"
| "entriesOf (NavItem e # cs) = e # entriesOf cs"

definition entrySignatures :: "child list \<Rightarrow> jsstring list" where
  "entrySignatures cs = map (\<lambda>e. signature (entryItem e)) (entriesOf cs)"

subsection \<open>Pages to run the script on\<close>

text \<open>
  A user message as the host page renders it (no id, no signature attribute yet), the
  state of a page on which the script has not run yet, and an address of the host.
\<close>

definition messageNode :: "jsstring \<Rightarrow> element" where
  "messageNode txt =
     \<lparr>testid = Some (jss ''user-message''), innerText = Some txt, navSignature = None,
      elemId = []\<rparr>"

definition freshState :: "location \<Rightarrow> element list \<Rightarrow> state" where
  "freshState l es =
     \<lparr>loc = l, elements = es, mainEl = True, roleMain = False, chatDiv = False,
      toggleBtn = None, sidebar = None, styleEl = False, convSeen = Map.empty,
      lastConv = [], installed = False, readyTimer = False, attempts = 0, logs = []\<rparr>"

definition chatLoc :: location where
  "chatLoc = \<lparr>origin = jss ''https://chatgpt.com'', pathname = jss ''/c/abc''\<rparr>"

definition helloPage :: state where
  "helloPage =
     freshState chatLoc [messageNode (jss ''Hello world''), messageNode (jss ''hello   world '')]"

text \<open>
  A page with an element that is not a user message (the kind an earlier revision's
  fallback selectors would have picked up), a user message, a blank one and another.
\<close>

definition mixedPage :: state where
  "mixedPage =
     freshState chatLoc
       [\<lparr>testid = None, innerText = Some (jss ''An article''), navSignature = None, elemId = []\<rparr>,
        messageNode (jss '' first ''),
        messageNode (jss ''   ''),
        messageNode (jss ''second'')]"

text \<open>A page with no user message.\<close>

definition articlePage :: state where
  "articlePage =
     freshState chatLoc
       [\<lparr>testid = None, innerText = Some (jss ''An article''), navSignature = None, elemId = []\<rparr>]"

text \<open>
  The script has tagged the message "hello"; the host then changes its text to "hi" in
  place and renders a second message "hi".
\<close>

definition editedPage :: state where
  "editedPage =
     (let st1 = initialSilentMark asciiLower (freshState chatLoc [messageNode (jss ''hello'')])
      in st1\<lparr>elements :=
              [(elements st1 ! 0)\<lparr>innerText := Some (jss ''hi'')\<rparr>, messageNode (jss ''hi'')]\<rparr>)"

text \<open>Two messages of 201 characters that differ in the last one only.\<close>

definition longPage :: state where
  "longPage =
     freshState chatLoc
       [messageNode (replicate 200 97 @ [98]), messageNode (replicate 200 97 @ [99])]"

text \<open>A page with one message on which the panel has been closed once.\<close>

definition closedPage :: state where
  "closedPage = toggleSidebar asciiLower False (freshState chatLoc [messageNode (jss ''hi'')])"

text \<open>Another conversation, and the page the host shows for it.\<close>

definition otherLoc :: location where
  "otherLoc = \<lparr>origin = jss ''https://chatgpt.com'', pathname = jss ''/c/xyz''\<rparr>"

definition otherPage :: hostpage where
  "otherPage =
     \<lparr>pageLoc = otherLoc, pageElements = [messageNode (jss ''bye'')], pageMain = True,
      pageRoleMain = False, pageChatDiv = False\<rparr>"

text \<open>The page with the two greetings after the initial silent mark.\<close>

definition markedPage :: state where
  "markedPage = initialSilentMark asciiLower helloPage"

text \<open>A page that has no chat root yet, and the page once it is loaded.\<close>

definition loadingPage :: hostpage where
  "loadingPage =
     \<lparr>pageLoc = chatLoc, pageElements = [], pageMain = False, pageRoleMain = False,
      pageChatDiv = False\<rparr>"

definition loadedPage :: hostpage where
  "loadedPage =
     \<lparr>pageLoc = chatLoc, pageElements = [messageNode (jss ''hi'')], pageMain = True,
      pageRoleMain = False, pageChatDiv = False\<rparr>"

text \<open>The first conversation again, now showing another message.\<close>

definition backPage :: hostpage where
  "backPage =
     \<lparr>pageLoc = chatLoc, pageElements = [messageNode (jss ''new'')], pageMain = True,
      pageRoleMain = False, pageChatDiv = False\<rparr>"

text \<open>
  The script set up on a conversation with the message "hello"; the user goes to another
  conversation and comes back, and the poll has not yet seen the return.
\<close>

definition returnedPage :: state where
  "returnedPage =
     run asciiLower (readinessTick asciiLower (freshState chatLoc [messageNode (jss ''hello'')]))
       [HostChange otherPage, ConvPoll, HostChange backPage]"

text \<open>The other conversation with a message "hi" added.\<close>

definition repeatedPage :: hostpage where
  "repeatedPage =
     \<lparr>pageLoc = otherLoc, pageElements = [messageNode (jss ''bye''), messageNode (jss ''hi'')],
      pageMain = True, pageRoleMain = False, pageChatDiv = False\<rparr>"

text \<open>
  The script set up on a conversation with the message "hi", the panel opened, the other
  conversation visited and seen by the poll, and the message "hi" typed there.
\<close>

definition switchedPage :: state where
  "switchedPage =
     run asciiLower (readinessTick asciiLower (freshState chatLoc [messageNode (jss ''hi'')]))
       [ToggleClick, HostChange otherPage, ConvPoll, HostChange repeatedPage]"

text \<open>The same up to the visit, before the poll has seen it.\<close>

definition changedPage :: state where
  "changedPage =
     run asciiLower (readinessTick asciiLower (freshState chatLoc [messageNode (jss ''hi'')]))
       [ToggleClick, HostChange otherPage]"

text \<open>Two messages that carry the same signature attribute.\<close>

definition sharedSignaturePage :: state where
  "sharedSignaturePage =
     freshState chatLoc
       [(messageNode (jss ''alpha''))\<lparr>navSignature := Some (jss ''s_1'')\<rparr>,
        (messageNode (jss ''beta''))\<lparr>navSignature := Some (jss ''s_1'')\<rparr>]"

text \<open>Two messages of which the second continues the first.\<close>

definition prefixPage :: state where
  "prefixPage = freshState chatLoc [messageNode (jss ''hello''), messageNode (jss ''hello world'')]"

section \<open>Properties\<close>

lemmas eval_defs = strHash_def hashStep_def jss_def toString16.simps hexDigit_def strHashHex_def
  computedSignature_def normalizeText_def asciiLower_def trim_def isSpace_def trimmedInnerText_def
  hasSignature_def isUserMessage_def scanNode_def getConversationKey_def Let_def
  getAllMessagesForCurrentConv_def messageNode_def freshState_def chatLoc_def
  uniqueOrdered_def normKey_def nearDup_def startsWith_def

lemma hashes_differ:
  "computedSignature (jss ''hello'') \<noteq> computedSignature (jss ''new'')"
  "computedSignature (jss ''hello'') \<noteq> computedSignature (jss ''hello world'')"
  by (simp_all add: eval_defs)

subsection \<open>The near-duplicate merge\<close>

lemma nearDup_refl: "nearDup k k"
  by (simp add: nearDup_def)

lemma nearDup_prefix:
  "nearDup s key \<longleftrightarrow> key = s \<or> prefix key s \<or> prefix s key"
  by (auto simp: nearDup_def startsWith_def)

lemma uniqueLoop_append:
  "uniqueLoop (xs @ ys) ord (map normKey ord) =
     uniqueLoop ys (uniqueLoop xs ord (map normKey ord))
       (map normKey (uniqueLoop xs ord (map normKey ord)))"
proof (induction xs arbitrary: ord)
  case Nil
  show ?case by simp
next
  case (Cons x xs)
  show ?case
    using Cons.IH [of "ord @ [x]"] Cons.IH [of ord] by (simp add: Let_def)
qed

lemma uniqueOrdered_append:
  "uniqueOrdered (xs @ ys) =
     uniqueLoop ys (uniqueOrdered xs) (map normKey (uniqueOrdered xs))"
  using uniqueLoop_append [of xs ys "[]"] by (simp add: uniqueOrdered_def)

lemma uniqueOrdered_snoc:
  "uniqueOrdered (xs @ [x]) =
     (if \<exists>a \<in> set (uniqueOrdered xs). nearDup (normKey a) (normKey x)
      then uniqueOrdered xs else uniqueOrdered xs @ [x])"
  by (simp add: uniqueOrdered_append Let_def list_ex_iff)

lemma uniqueOrdered_Nil: "uniqueOrdered [] = []"
  by (simp add: uniqueOrdered_def)

lemma uniqueOrdered_subseq: "subseq (uniqueOrdered xs) xs"
proof (induction xs rule: rev_induct)
  case Nil
  show ?case by (simp add: uniqueOrdered_Nil)
next
  case (snoc x xs)
  then show ?case
    by (auto simp: uniqueOrdered_snoc intro: subseq_order.trans)
qed

lemma uniqueOrdered_subset: "set (uniqueOrdered xs) \<subseteq> set xs"
  using uniqueOrdered_subseq [of xs] by (auto elim: list_emb_set)

lemma uniqueOrdered_covers:
  "y \<in> set xs \<Longrightarrow> \<exists>a \<in> set (uniqueOrdered xs). nearDup (normKey a) (normKey y)"
proof (induction xs rule: rev_induct)
  case Nil
  then show ?case by simp
next
  case (snoc x xs)
  show ?case
  proof (cases "y = x")
    case True
    then show ?thesis
      by (auto simp: uniqueOrdered_snoc nearDup_refl)
  next
    case False
    with snoc show ?thesis
      by (auto simp: uniqueOrdered_snoc)
  qed
qed

lemma uniqueOrdered_drop_at:
  assumes j: "j < length items"
    and dup: "\<exists>a \<in> set (uniqueOrdered (take j items)). nearDup (normKey a) (normKey (items ! j))"
  shows "uniqueOrdered items = uniqueOrdered (take j items @ drop (Suc j) items)"
proof -
  have items: "items = (take j items @ [items ! j]) @ drop (Suc j) items"
    using j by (simp add: Cons_nth_drop_Suc)
  have "uniqueOrdered ((take j items @ [items ! j]) @ drop (Suc j) items) =
        uniqueLoop (drop (Suc j) items) (uniqueOrdered (take j items))
          (map normKey (uniqueOrdered (take j items)))"
    using dup
    by (simp only: uniqueOrdered_append [of "take j items @ [items ! j]"] uniqueOrdered_snoc if_True)
  also have "\<dots> = uniqueOrdered (take j items @ drop (Suc j) items)"
    by (simp only: uniqueOrdered_append)
  finally show ?thesis using items by simp
qed

lemma helloPage_batch:
  "map signature (uniqueOrdered (fst (getAllMessagesForCurrentConv asciiLower helloPage))) =
     [computedSignature (jss ''hello world'')]"
  "length (fst (getAllMessagesForCurrentConv asciiLower helloPage)) = 2"
  by (simp_all add: eval_defs helloPage_def)

subsection \<open>The scanner\<close>

lemma scanNode_None: "snd (scanNode lc k idx e) = None \<longleftrightarrow> trimmedInnerText e = []"
  by (simp add: scanNode_def Let_def)

lemma scanNode_item:
  assumes "snd (scanNode lc k idx e) = Some it"
  shows "elementRef it = idx" "rawText it = trimmedInnerText e" "rawText it \<noteq> []"
    "itemText it \<noteq> []" "norm it = take 400 (normalizeText lc (rawText it))"
    "itemText it = (if length (rawText it) > 80 then take 80 (rawText it) @ [8230] else rawText it)"
    "\<not> hasSignature e \<Longrightarrow> signature it = computedSignature (norm it)"
    "hasSignature e \<Longrightarrow> navSignature e = Some (signature it)"
  using assms
  by (auto simp: scanNode_def Let_def hasSignature_def split: if_splits option.splits)

lemma scanNodes_length: "length (fst (scanNodes lc k i es)) = length es"
  by (induction es arbitrary: i) (auto simp: Let_def case_prod_beta split: option.splits)

lemma scanNodes_nth:
  "j < length es \<Longrightarrow>
   fst (scanNodes lc k i es) ! j =
     (if isUserMessage (es ! j) then fst (scanNode lc k (i + j) (es ! j)) else es ! j)"
proof (induction es arbitrary: i j)
  case Nil
  then show ?case by simp
next
  case (Cons e es)
  show ?case
  proof (cases j)
    case 0
    then show ?thesis by (auto simp: Let_def case_prod_beta split: option.splits)
  next
    case (Suc j')
    with Cons.prems have "j' < length es" by simp
    from Cons.IH [OF this, of "Suc i"] Suc show ?thesis
      by (auto simp: Let_def case_prod_beta split: option.splits)
  qed
qed

lemma map_filter_map_Suc:
  "List.map_filter f (map Suc xs) = List.map_filter (\<lambda>j. f (Suc j)) xs"
  by (induction xs) (auto simp: map_filter_simps split: option.splits)

lemma scanNodes_items_offset:
  "snd (scanNodes lc k i es) =
     List.map_filter
       (\<lambda>j. if isUserMessage (es ! j) then snd (scanNode lc k (i + j) (es ! j)) else None)
       [0..<length es]"
proof (induction es arbitrary: i)
  case Nil
  show ?case by (simp add: map_filter_simps)
next
  case (Cons e es)
  have upt: "[0..<length (e # es)] = 0 # map Suc [0..<length es]"
    by (simp add: upt_conv_Cons map_Suc_upt del: upt_Suc)
  show ?case
    unfolding upt
    by (simp add: Let_def map_filter_map_Suc Cons.IH [of "Suc i"] case_prod_beta map_filter_simps
          split: option.splits cong: if_cong)
qed

lemma scanNodes_items:
  "snd (scanNodes lc k 0 es) = List.map_filter (scanAt lc k es) [0..<length es]"
proof -
  have "scanAt lc k es =
        (\<lambda>j. if isUserMessage (es ! j) then snd (scanNode lc k (0 + j) (es ! j)) else None)"
    by (rule ext) (simp add: scanAt_def)
  then show ?thesis by (simp only: scanNodes_items_offset)
qed

lemma getAll_items:
  "fst (getAllMessagesForCurrentConv lc st) =
     List.map_filter (scanAt lc (getConversationKey (loc st)) (elements st))
       [0..<length (elements st)]"
  by (simp add: getAllMessagesForCurrentConv_def Let_def case_prod_beta scanNodes_items)

lemma getAll_elements:
  "elements (snd (getAllMessagesForCurrentConv lc st)) =
     fst (scanNodes lc (getConversationKey (loc st)) 0 (elements st))"
  by (simp add: getAllMessagesForCurrentConv_def Let_def case_prod_beta)

lemma scanAt_Some:
  assumes "scanAt lc k es j = Some it"
  shows "isUserMessage (es ! j)" "trimmedInnerText (es ! j) \<noteq> []" "elementRef it = j"
    "snd (scanNode lc k j (es ! j)) = Some it"
  using assms scanNode_item(1,2,3) [of lc k j "es ! j" it]
  by (auto simp: scanAt_def split: if_splits)

lemma scanAt_None:
  "scanAt lc k es j = None \<longleftrightarrow> \<not> (isUserMessage (es ! j) \<and> trimmedInnerText (es ! j) \<noteq> [])"
  by (auto simp: scanAt_def scanNode_None)

lemma map_filter_refs:
  assumes "\<And>j it. f j = Some it \<Longrightarrow> g it = j"
  shows "map g (List.map_filter f xs) = filter (\<lambda>j. f j \<noteq> None) xs"
  using assms by (induction xs) (auto simp: map_filter_simps split: option.splits)

lemma set_map_filter: "set (List.map_filter f xs) = {y. \<exists>x \<in> set xs. f x = Some y}"
  by (induction xs) (auto simp: map_filter_simps split: option.splits)

lemma getAll_refs:
  "map elementRef (fst (getAllMessagesForCurrentConv lc st)) =
     filter (\<lambda>j. isUserMessage (elements st ! j) \<and> trimmedInnerText (elements st ! j) \<noteq> [])
       [0..<length (elements st)]"
proof -
  have "map elementRef (fst (getAllMessagesForCurrentConv lc st)) =
        filter (\<lambda>j. scanAt lc (getConversationKey (loc st)) (elements st) j \<noteq> None)
          [0..<length (elements st)]"
    unfolding getAll_items by (rule map_filter_refs) (rule scanAt_Some(3))
  then show ?thesis by (simp add: scanAt_None)
qed

lemma getAll_member:
  assumes "it \<in> set (fst (getAllMessagesForCurrentConv lc st))"
  shows "elementRef it < length (elements st)"
    "isUserMessage (elements st ! elementRef it)"
    "snd (scanNode lc (getConversationKey (loc st)) (elementRef it) (elements st ! elementRef it))
       = Some it"
proof -
  from assms obtain j where j: "j < length (elements st)"
    and s: "scanAt lc (getConversationKey (loc st)) (elements st) j = Some it"
    by (auto simp: getAll_items set_map_filter)
  from scanAt_Some [OF s] j
  show "elementRef it < length (elements st)"
    "isUserMessage (elements st ! elementRef it)"
    "snd (scanNode lc (getConversationKey (loc st)) (elementRef it) (elements st ! elementRef it))
       = Some it"
    by auto
qed

lemma getAll_distinct: "distinct (fst (getAllMessagesForCurrentConv lc st))"
proof -
  have "distinct (map elementRef (fst (getAllMessagesForCurrentConv lc st)))"
    by (simp add: getAll_refs)
  then show ?thesis by (rule distinct_map [THEN iffD1, THEN conjunct1])
qed

text \<open>
  C7. The scanner makes items of exactly the elements that match
  \<^verbatim>\<open>[data-testid="user-message"]\<close> and whose trimmed text is not empty, in document order
  (when no element matches, there is no item: no other selector is tried); the raw text
  of an item is the trimmed text of its element, and neither it nor the display text is
  empty; the elements that do not match are left as they are.
\<close>

theorem scanner_reads_user_messages_only:
  "map elementRef (fst (getAllMessagesForCurrentConv lc st)) =
     filter (\<lambda>j. isUserMessage (elements st ! j) \<and> trimmedInnerText (elements st ! j) \<noteq> [])
       [0..<length (elements st)] \<and>
   sorted_wrt (<) (map elementRef (fst (getAllMessagesForCurrentConv lc st))) \<and>
   (\<forall>it \<in> set (fst (getAllMessagesForCurrentConv lc st)).
      rawText it = trimmedInnerText (elements st ! elementRef it) \<and> rawText it \<noteq> [] \<and>
      itemText it \<noteq> []) \<and>
   ((\<forall>e \<in> set (elements st). \<not> isUserMessage e) \<longrightarrow>
      fst (getAllMessagesForCurrentConv lc st) = []) \<and>
   length (elements (snd (getAllMessagesForCurrentConv lc st))) = length (elements st) \<and>
   (\<forall>j < length (elements st). \<not> isUserMessage (elements st ! j) \<longrightarrow>
      elements (snd (getAllMessagesForCurrentConv lc st)) ! j = elements st ! j)"
proof -
  let ?items = "fst (getAllMessagesForCurrentConv lc st)"
  have refs: "map elementRef ?items =
     filter (\<lambda>j. isUserMessage (elements st ! j) \<and> trimmedInnerText (elements st ! j) \<noteq> [])
       [0..<length (elements st)]"
    by (rule getAll_refs)
  have sorted: "sorted_wrt (<) (map elementRef ?items)"
    unfolding refs by (rule sorted_wrt_filter) (rule sorted_wrt_upt)
  have each: "\<forall>it \<in> set ?items.
      rawText it = trimmedInnerText (elements st ! elementRef it) \<and> rawText it \<noteq> [] \<and>
      itemText it \<noteq> []"
    using getAll_member(3) scanNode_item(2,3,4) by blast
  have none: "(\<forall>e \<in> set (elements st). \<not> isUserMessage e) \<longrightarrow> ?items = []"
  proof
    assume "\<forall>e \<in> set (elements st). \<not> isUserMessage e"
    then have "map elementRef ?items = []"
      unfolding refs by (auto simp: filter_empty_conv)
    then show "?items = []" by simp
  qed
  have len: "length (elements (snd (getAllMessagesForCurrentConv lc st))) = length (elements st)"
    by (simp add: getAll_elements scanNodes_length)
  have others: "\<forall>j < length (elements st). \<not> isUserMessage (elements st ! j) \<longrightarrow>
      elements (snd (getAllMessagesForCurrentConv lc st)) ! j = elements st ! j"
    by (simp add: getAll_elements scanNodes_nth)
  from refs sorted each none len others show ?thesis by blast
qed

theorem scanner_reads_user_messages_only_witness:
  "map elementRef (fst (getAllMessagesForCurrentConv asciiLower mixedPage)) = [1, 3] \<and>
   map rawText (fst (getAllMessagesForCurrentConv asciiLower mixedPage)) =
     [jss ''first'', jss ''second''] \<and>
   elements (snd (getAllMessagesForCurrentConv asciiLower mixedPage)) ! 0 = elements mixedPage ! 0 \<and>
   fst (getAllMessagesForCurrentConv asciiLower articlePage) = []"
proof -
  have refs: "map elementRef (fst (getAllMessagesForCurrentConv asciiLower mixedPage)) = [1, 3]"
    using scanner_reads_user_messages_only [of asciiLower mixedPage]
    by (simp add: mixedPage_def freshState_def messageNode_def isUserMessage_def
          trimmedInnerText_def trim_def isSpace_def jss_def upt_rec)
  have raw: "map rawText (fst (getAllMessagesForCurrentConv asciiLower mixedPage)) =
     [jss ''first'', jss ''second'']"
    by (simp add: eval_defs mixedPage_def)
  have "(0::nat) < length (elements mixedPage) \<and> \<not> isUserMessage (elements mixedPage ! 0)"
    by (simp add: mixedPage_def freshState_def isUserMessage_def)
  with scanner_reads_user_messages_only [of asciiLower mixedPage]
  have first: "elements (snd (getAllMessagesForCurrentConv asciiLower mixedPage)) ! 0 =
        elements mixedPage ! 0"
    by blast
  have "\<forall>e \<in> set (elements articlePage). \<not> isUserMessage e"
    by (simp add: articlePage_def freshState_def isUserMessage_def)
  with scanner_reads_user_messages_only [of asciiLower articlePage]
  have "fst (getAllMessagesForCurrentConv asciiLower articlePage) = []"
    by blast
  with refs raw first show ?thesis by simp
qed

text \<open>A second scan finds every element tagged and makes the same items.\<close>

lemma computedSignature_nonempty: "computedSignature n \<noteq> []"
  by (simp add: computedSignature_def jss_def)

lemma scanNode_idem:
  "scanNode lc k' idx (fst (scanNode lc k idx e)) = scanNode lc k idx e"
  by (cases "navSignature e")
     (auto simp: scanNode_def Let_def trimmedInnerText_def hasSignature_def
        computedSignature_nonempty jss_def)

lemma scanNode_isUserMessage: "isUserMessage (fst (scanNode lc k idx e)) = isUserMessage e"
  by (simp add: scanNode_def Let_def isUserMessage_def)

lemma scanNodes_idem:
  "scanNodes lc k' i (fst (scanNodes lc k i es)) = scanNodes lc k i es"
proof (induction es arbitrary: i)
  case Nil
  show ?case by simp
next
  case (Cons e es)
  show ?case
  proof (cases "isUserMessage e")
    case True
    obtain e' r where s: "scanNode lc k i e = (e', r)"
      by (cases "scanNode lc k i e")
    then have e': "e' = fst (scanNode lc k i e)"
      by simp
    have "isUserMessage e'"
      unfolding e' using True by (simp add: scanNode_isUserMessage)
    moreover have "scanNode lc k' i e' = (e', r)"
      using scanNode_idem [of lc k' i k e] s by simp
    ultimately show ?thesis
      using True s Cons.IH [of "Suc i"]
      by (cases r) (simp_all add: Let_def case_prod_beta)
  next
    case False
    then show ?thesis
      using Cons.IH [of "Suc i"] by (simp add: Let_def case_prod_beta)
  qed
qed

lemma getAll_scanned:
  assumes "loc st' = loc st" "elements st' = elements (snd (getAllMessagesForCurrentConv lc st))"
  shows "fst (getAllMessagesForCurrentConv lc st') = fst (getAllMessagesForCurrentConv lc st)"
    "elements (snd (getAllMessagesForCurrentConv lc st')) =
       elements (snd (getAllMessagesForCurrentConv lc st))"
  using assms scanNodes_idem [of lc "getConversationKey (loc st)" 0 "getConversationKey (loc st)" "elements st"]
  by (simp_all add: getAllMessagesForCurrentConv_def Let_def case_prod_beta)

lemma scanNode_tagged:
  assumes "snd (scanNode lc k idx e) = Some it"
  shows "navSignature (fst (scanNode lc k idx e)) = Some (signature it)"
    "hasSignature (fst (scanNode lc k idx e))"
  using assms
  by (cases "navSignature e";
      auto simp: scanNode_def Let_def hasSignature_def computedSignature_nonempty
        split: if_splits)+

lemma getAll_tagged:
  assumes "it \<in> set (fst (getAllMessagesForCurrentConv lc st))"
  shows "navSignature (elements (snd (getAllMessagesForCurrentConv lc st)) ! elementRef it) =
           Some (signature it)"
    "hasSignature (elements (snd (getAllMessagesForCurrentConv lc st)) ! elementRef it)"
proof -
  note m = getAll_member [OF assms]
  have "elements (snd (getAllMessagesForCurrentConv lc st)) ! elementRef it =
        fst (scanNode lc (getConversationKey (loc st)) (elementRef it) (elements st ! elementRef it))"
    using m(1,2) by (simp add: getAll_elements scanNodes_nth)
  with scanNode_tagged [OF m(3)]
  show "navSignature (elements (snd (getAllMessagesForCurrentConv lc st)) ! elementRef it) =
           Some (signature it)"
    "hasSignature (elements (snd (getAllMessagesForCurrentConv lc st)) ! elementRef it)"
    by simp_all
qed

lemma getAll_rescan:
  "fst (getAllMessagesForCurrentConv lc (snd (getAllMessagesForCurrentConv lc st))) =
     fst (getAllMessagesForCurrentConv lc st)"
  by (rule getAll_scanned(1)) simp_all

lemmas state_defs = ensureConvSet_def seenAdd_def consoleLog_def initialSilentMark_def
  ensureToggleButton_def ensureSidebar_def addStyles_def listOf_def setList_def setDisplay_def
  setExpanded_def injectedIds_def outsideIds_def documentIds_def hasElementById_def navItem_def
  itemDomId_def
  updateSidebar_def toggleSidebar_def sidebarVisible_def appendNewMessagesForCurrentConv_def
  seenOf_def

text \<open>
  C1, as the script has it. Two scanned elements that carry no signature attribute yet
  (none, or an empty one) and whose raw texts have the same normalized form get the
  same signature: \<open>s_\<close> and the hash of the first 400 characters of the normalized
  text, which is the lower-cased, trimmed, white-space-collapsed raw text. An element
  that carries a signature attribute keeps it as the signature of its item, whatever
  its text is now. The scan leaves every scanned element with the signature of its
  item as its attribute, and a second scan of the page gives the same items.
\<close>

theorem scanner_signature_deterministic:
  "it1 \<in> set (fst (getAllMessagesForCurrentConv lc st)) \<Longrightarrow>
   it2 \<in> set (fst (getAllMessagesForCurrentConv lc st)) \<Longrightarrow>
   (\<not> hasSignature (elements st ! elementRef it1) \<and>
    \<not> hasSignature (elements st ! elementRef it2) \<and>
    normalizeText lc (rawText it1) = normalizeText lc (rawText it2) \<longrightarrow>
      signature it1 = signature it2) \<and>
   (\<not> hasSignature (elements st ! elementRef it1) \<longrightarrow>
      signature it1 = computedSignature (take 400 (lc (trim (collapseWs (rawText it1)))))) \<and>
   (hasSignature (elements st ! elementRef it1) \<longrightarrow>
      navSignature (elements st ! elementRef it1) = Some (signature it1)) \<and>
   navSignature (elements (snd (getAllMessagesForCurrentConv lc st)) ! elementRef it1) =
     Some (signature it1) \<and>
   hasSignature (elements (snd (getAllMessagesForCurrentConv lc st)) ! elementRef it1) \<and>
   fst (getAllMessagesForCurrentConv lc (snd (getAllMessagesForCurrentConv lc st))) =
     fst (getAllMessagesForCurrentConv lc st)"
proof -
  assume m1: "it1 \<in> set (fst (getAllMessagesForCurrentConv lc st))"
    and m2: "it2 \<in> set (fst (getAllMessagesForCurrentConv lc st))"
  note s1 = getAll_member(3) [OF m1] and s2 = getAll_member(3) [OF m2]
  have "rawText it1 \<noteq> []"
    by (rule scanNode_item(3) [OF s1])
  then have n1: "normalizeText lc (rawText it1) = lc (trim (collapseWs (rawText it1)))"
    by (simp add: normalizeText_def)
  have sig1: "signature it1 = computedSignature (take 400 (normalizeText lc (rawText it1)))"
    if "\<not> hasSignature (elements st ! elementRef it1)"
    using scanNode_item(7) [OF s1 that] scanNode_item(5) [OF s1] by simp
  have sig2: "signature it2 = computedSignature (take 400 (normalizeText lc (rawText it2)))"
    if "\<not> hasSignature (elements st ! elementRef it2)"
    using scanNode_item(7) [OF s2 that] scanNode_item(5) [OF s2] by simp
  have same: "\<not> hasSignature (elements st ! elementRef it1) \<and>
    \<not> hasSignature (elements st ! elementRef it2) \<and>
    normalizeText lc (rawText it1) = normalizeText lc (rawText it2) \<longrightarrow>
      signature it1 = signature it2"
    using sig1 sig2 by auto
  have fresh: "\<not> hasSignature (elements st ! elementRef it1) \<longrightarrow>
      signature it1 = computedSignature (take 400 (lc (trim (collapseWs (rawText it1)))))"
    using sig1 n1 by simp
  have kept: "hasSignature (elements st ! elementRef it1) \<longrightarrow>
      navSignature (elements st ! elementRef it1) = Some (signature it1)"
    using scanNode_item(8) [OF s1] by blast
  from same fresh kept getAll_tagged [OF m1] getAll_rescan [of lc st]
  show ?thesis by blast
qed

theorem scanner_signature_deterministic_witness:
  "signature (fst (getAllMessagesForCurrentConv asciiLower helloPage) ! 0) =
     signature (fst (getAllMessagesForCurrentConv asciiLower helloPage) ! 1) \<and>
   signature (fst (getAllMessagesForCurrentConv asciiLower helloPage) ! 0) =
     computedSignature (jss ''hello world'') \<and>
   rawText (fst (getAllMessagesForCurrentConv asciiLower helloPage) ! 0) = jss ''Hello world'' \<and>
   rawText (fst (getAllMessagesForCurrentConv asciiLower helloPage) ! 1) = jss ''hello   world'' \<and>
   navSignature (elements (snd (getAllMessagesForCurrentConv asciiLower helloPage)) ! 0) =
     Some (computedSignature (jss ''hello world'')) \<and>
   rawText (fst (getAllMessagesForCurrentConv asciiLower editedPage) ! 0) = jss ''hi'' \<and>
   navSignature (elements editedPage ! 0) = Some (computedSignature (jss ''hello'')) \<and>
   signature (fst (getAllMessagesForCurrentConv asciiLower editedPage) ! 0) =
     computedSignature (jss ''hello'') \<and>
   fst (getAllMessagesForCurrentConv asciiLower
          (snd (getAllMessagesForCurrentConv asciiLower editedPage))) =
     fst (getAllMessagesForCurrentConv asciiLower editedPage)"
proof -
  let ?items = "fst (getAllMessagesForCurrentConv asciiLower helloPage)"
  let ?edited = "fst (getAllMessagesForCurrentConv asciiLower editedPage)"
  have mem: "?items ! 0 \<in> set ?items" "?items ! 1 \<in> set ?items"
    by (simp_all add: helloPage_batch(2))
  have refs: "elementRef (?items ! 0) = 0" "elementRef (?items ! 1) = 1"
    by (simp_all add: eval_defs helloPage_def)
  have nosig: "\<not> hasSignature (elements helloPage ! elementRef (?items ! 0))"
    "\<not> hasSignature (elements helloPage ! elementRef (?items ! 1))"
    unfolding refs by (simp_all add: helloPage_def freshState_def messageNode_def hasSignature_def)
  have raw: "rawText (?items ! 0) = jss ''Hello world''" "rawText (?items ! 1) = jss ''hello   world''"
    by (simp_all add: eval_defs helloPage_def)
  have eq: "normalizeText asciiLower (rawText (?items ! 0)) =
            normalizeText asciiLower (rawText (?items ! 1))"
    unfolding raw by (simp add: eval_defs)
  have c: "computedSignature (take 400 (asciiLower (trim (collapseWs (rawText (?items ! 0)))))) =
        computedSignature (jss ''hello world'')"
    unfolding raw by (simp add: asciiLower_def trim_def isSpace_def jss_def)
  note d = scanner_signature_deterministic [OF mem]
  from d nosig eq have e: "signature (?items ! 0) = signature (?items ! 1)"
    by blast
  from d nosig have "signature (?items ! 0) =
      computedSignature (take 400 (asciiLower (trim (collapseWs (rawText (?items ! 0))))))"
    by blast
  then have f: "signature (?items ! 0) = computedSignature (jss ''hello world'')"
    by (rule trans) (rule c)
  from d have "navSignature (elements (snd (getAllMessagesForCurrentConv asciiLower helloPage)) !
      elementRef (?items ! 0)) = Some (signature (?items ! 0))"
    by blast
  then have g: "navSignature (elements (snd (getAllMessagesForCurrentConv asciiLower helloPage)) ! 0) =
      Some (computedSignature (jss ''hello world''))"
    unfolding refs f .
  have len: "length ?edited = 2"
    by (simp add: eval_defs state_defs editedPage_def)
  then have emem: "?edited ! 0 \<in> set ?edited"
    by simp
  have eref: "elementRef (?edited ! 0) = 0"
    by (simp add: eval_defs state_defs editedPage_def)
  have eraw: "rawText (?edited ! 0) = jss ''hi''"
    by (simp add: eval_defs state_defs editedPage_def)
  have attr: "navSignature (elements editedPage ! 0) = Some (computedSignature (jss ''hello''))"
    by (simp add: eval_defs state_defs editedPage_def)
  then have tagged: "hasSignature (elements editedPage ! elementRef (?edited ! 0))"
    unfolding eref by (simp add: hasSignature_def computedSignature_nonempty)
  note h = scanner_signature_deterministic [OF emem emem]
  from h tagged have "navSignature (elements editedPage ! elementRef (?edited ! 0)) =
      Some (signature (?edited ! 0))"
    by blast
  with attr have kept: "signature (?edited ! 0) = computedSignature (jss ''hello'')"
    unfolding eref by simp
  from h have again: "fst (getAllMessagesForCurrentConv asciiLower
          (snd (getAllMessagesForCurrentConv asciiLower editedPage))) = ?edited"
    by blast
  from e f raw g eraw attr kept again show ?thesis by blast
qed

text \<open>
  The claim as it is written fails on an element that carries a signature from an
  earlier scan: the script tagged the message "hello", the host then changed its text
  to "hi" in place and rendered a second message "hi". The two elements have the same
  normalized text and different signatures.
\<close>

theorem scanner_signature_stale_counterexample:
  "length (fst (getAllMessagesForCurrentConv asciiLower editedPage)) = 2 \<and>
   normalizeText asciiLower (rawText (fst (getAllMessagesForCurrentConv asciiLower editedPage) ! 0)) =
     normalizeText asciiLower (rawText (fst (getAllMessagesForCurrentConv asciiLower editedPage) ! 1)) \<and>
   signature (fst (getAllMessagesForCurrentConv asciiLower editedPage) ! 0) \<noteq>
     signature (fst (getAllMessagesForCurrentConv asciiLower editedPage) ! 1)"
  by (simp add: eval_defs state_defs editedPage_def)

lemma nearDup_norm:
  "nearDup (normKey a) (normKey x) \<longleftrightarrow>
     take 200 (norm x) = take 200 (norm a) \<or> prefix (take 200 (norm x)) (take 200 (norm a)) \<or>
     prefix (take 200 (norm a)) (take 200 (norm x))"
  by (simp add: nearDup_prefix normKey_def)

lemma prefixPage_batch:
  "map norm (fst (getAllMessagesForCurrentConv asciiLower prefixPage)) =
     [jss ''hello'', jss ''hello world'']"
  "map norm (uniqueOrdered (fst (getAllMessagesForCurrentConv asciiLower prefixPage))) =
     [jss ''hello'']"
  "map signature (fst (getAllMessagesForCurrentConv asciiLower prefixPage)) =
     [computedSignature (jss ''hello''), computedSignature (jss ''hello world'')]"
  "map rawText (fst (getAllMessagesForCurrentConv asciiLower prefixPage)) =
     [jss ''hello'', jss ''hello world'']"
  by (simp_all add: eval_defs prefixPage_def)

text \<open>
  C2. Within one batch, an item is dropped exactly when the first 200 characters of its
  normalized text (\<open>norm\<close>, for a scanned item the first 400 characters of the
  normalized raw text) equal, are a prefix of, or have as a prefix the first 200
  characters of the normalized text of an item accepted before it; the accepted items
  are a subsequence of the batch, in first-seen order. A page with the two messages
  "Hello world" and "hello   world " gives a batch of one item, whose signature is that
  of "hello world"; of the two messages "hello" and "hello world" the second is dropped.
\<close>

theorem uniqueOrdered_near_duplicate_merge:
  "subseq (uniqueOrdered items) items \<and>
   uniqueOrdered (items @ [x]) =
     (if \<exists>a \<in> set (uniqueOrdered items).
           take 200 (norm x) = take 200 (norm a) \<or>
           prefix (take 200 (norm x)) (take 200 (norm a)) \<or>
           prefix (take 200 (norm a)) (take 200 (norm x))
      then uniqueOrdered items else uniqueOrdered items @ [x]) \<and>
   (j < length items \<and>
    (\<exists>a \<in> set (uniqueOrdered (take j items)).
       take 200 (norm (items ! j)) = take 200 (norm a) \<or>
       prefix (take 200 (norm (items ! j))) (take 200 (norm a)) \<or>
       prefix (take 200 (norm a)) (take 200 (norm (items ! j))))
    \<longrightarrow> uniqueOrdered items = uniqueOrdered (take j items @ drop (Suc j) items)) \<and>
   (it \<in> set (fst (getAllMessagesForCurrentConv lc st)) \<longrightarrow>
      norm it = take 400 (normalizeText lc (rawText it))) \<and>
   map signature (uniqueOrdered (fst (getAllMessagesForCurrentConv asciiLower helloPage))) =
     [computedSignature (jss ''hello world'')] \<and>
   map norm (fst (getAllMessagesForCurrentConv asciiLower prefixPage)) =
     [jss ''hello'', jss ''hello world''] \<and>
   map norm (uniqueOrdered (fst (getAllMessagesForCurrentConv asciiLower prefixPage))) =
     [jss ''hello'']"
proof -
  have a: "subseq (uniqueOrdered items) items"
    by (rule uniqueOrdered_subseq)
  have b: "uniqueOrdered (items @ [x]) =
     (if \<exists>a \<in> set (uniqueOrdered items).
           take 200 (norm x) = take 200 (norm a) \<or>
           prefix (take 200 (norm x)) (take 200 (norm a)) \<or>
           prefix (take 200 (norm a)) (take 200 (norm x))
      then uniqueOrdered items else uniqueOrdered items @ [x])"
    by (simp only: uniqueOrdered_snoc nearDup_norm)
  have c: "j < length items \<and>
    (\<exists>a \<in> set (uniqueOrdered (take j items)).
       take 200 (norm (items ! j)) = take 200 (norm a) \<or>
       prefix (take 200 (norm (items ! j))) (take 200 (norm a)) \<or>
       prefix (take 200 (norm a)) (take 200 (norm (items ! j))))
    \<longrightarrow> uniqueOrdered items = uniqueOrdered (take j items @ drop (Suc j) items)"
    using uniqueOrdered_drop_at [of j items] by (simp only: nearDup_norm) blast
  have d: "it \<in> set (fst (getAllMessagesForCurrentConv lc st)) \<longrightarrow>
      norm it = take 400 (normalizeText lc (rawText it))"
    using getAll_member(3) [of it lc st] scanNode_item(5) by blast
  from a b c d helloPage_batch(1) prefixPage_batch(1,2) show ?thesis by blast
qed

theorem uniqueOrdered_near_duplicate_merge_witness:
  "(1::nat) < length (fst (getAllMessagesForCurrentConv asciiLower prefixPage)) \<and>
   norm (fst (getAllMessagesForCurrentConv asciiLower prefixPage) ! 0) = jss ''hello'' \<and>
   norm (fst (getAllMessagesForCurrentConv asciiLower prefixPage) ! 1) = jss ''hello world'' \<and>
   norm (fst (getAllMessagesForCurrentConv asciiLower prefixPage) ! 1) =
     take 400 (normalizeText asciiLower (jss ''hello world'')) \<and>
   signature (fst (getAllMessagesForCurrentConv asciiLower prefixPage) ! 0) \<noteq>
     signature (fst (getAllMessagesForCurrentConv asciiLower prefixPage) ! 1) \<and>
   (\<exists>a \<in> set (uniqueOrdered (take 1 (fst (getAllMessagesForCurrentConv asciiLower prefixPage)))).
      prefix (take 200 (norm a))
        (take 200 (norm (fst (getAllMessagesForCurrentConv asciiLower prefixPage) ! 1)))) \<and>
   uniqueOrdered (fst (getAllMessagesForCurrentConv asciiLower prefixPage)) =
     uniqueOrdered (take 1 (fst (getAllMessagesForCurrentConv asciiLower prefixPage)) @
                    drop 2 (fst (getAllMessagesForCurrentConv asciiLower prefixPage))) \<and>
   length (uniqueOrdered (fst (getAllMessagesForCurrentConv asciiLower prefixPage))) = 1"
proof -
  let ?items = "fst (getAllMessagesForCurrentConv asciiLower prefixPage)"
  have len2: "length ?items = 2"
    using arg_cong [OF prefixPage_batch(1), of length] by simp
  then have len: "(1::nat) < length ?items"
    by simp
  have nrm: "norm (?items ! 0) = jss ''hello''" "norm (?items ! 1) = jss ''hello world''"
    using len2 arg_cong [OF prefixPage_batch(1), of "\<lambda>xs. xs ! 0"]
      arg_cong [OF prefixPage_batch(1), of "\<lambda>xs. xs ! 1"] by simp_all
  have raw: "rawText (?items ! 1) = jss ''hello world''"
    using len2 arg_cong [OF prefixPage_batch(4), of "\<lambda>xs. xs ! 1"] by simp
  have sigs: "signature (?items ! 0) \<noteq> signature (?items ! 1)"
    using len2 arg_cong [OF prefixPage_batch(3), of "\<lambda>xs. xs ! 0"]
      arg_cong [OF prefixPage_batch(3), of "\<lambda>xs. xs ! 1"] hashes_differ(2) by simp
  have dup: "\<exists>a \<in> set (uniqueOrdered (take 1 ?items)).
      prefix (take 200 (norm a)) (take 200 (norm (?items ! 1)))"
    by (simp add: eval_defs prefixPage_def)
  have mem: "?items ! 1 \<in> set ?items"
    using len by simp
  note t = uniqueOrdered_near_duplicate_merge [of ?items "?items ! 1" 1 "?items ! 1" asciiLower prefixPage]
  from t len dup have same: "uniqueOrdered ?items = uniqueOrdered (take 1 ?items @ drop (Suc 1) ?items)"
    by blast
  from t mem have "norm (?items ! 1) = take 400 (normalizeText asciiLower (rawText (?items ! 1)))"
    by blast
  then have tie: "norm (?items ! 1) = take 400 (normalizeText asciiLower (jss ''hello world''))"
    unfolding raw .
  from t have "map norm (uniqueOrdered ?items) = [jss ''hello'']"
    by blast
  then have "length (map norm (uniqueOrdered ?items)) = 1"
    by simp
  then have one: "length (uniqueOrdered ?items) = 1"
    by simp
  from len nrm tie sigs dup same one show ?thesis
    by (simp add: numeral_2_eq_2)
qed

lemma getAll_nth:
  assumes "j < length (fst (getAllMessagesForCurrentConv lc st))"
  shows "norm (fst (getAllMessagesForCurrentConv lc st) ! j) =
           take 400 (normalizeText lc (rawText (fst (getAllMessagesForCurrentConv lc st) ! j)))"
    "normKey (fst (getAllMessagesForCurrentConv lc st) ! j) =
           take 200 (normalizeText lc (rawText (fst (getAllMessagesForCurrentConv lc st) ! j)))"
    "\<not> hasSignature (elements st ! elementRef (fst (getAllMessagesForCurrentConv lc st) ! j)) \<Longrightarrow>
     signature (fst (getAllMessagesForCurrentConv lc st) ! j) =
       computedSignature
         (take 400 (normalizeText lc (rawText (fst (getAllMessagesForCurrentConv lc st) ! j))))"
proof -
  let ?it = "fst (getAllMessagesForCurrentConv lc st) ! j"
  from assms have "?it \<in> set (fst (getAllMessagesForCurrentConv lc st))"
    by simp
  note s = getAll_member(3) [OF this]
  show n: "norm ?it = take 400 (normalizeText lc (rawText ?it))"
    by (rule scanNode_item(5) [OF s])
  then show "normKey ?it = take 200 (normalizeText lc (rawText ?it))"
    by (simp add: normKey_def)
  show "signature ?it = computedSignature (take 400 (normalizeText lc (rawText ?it)))"
    if "\<not> hasSignature (elements st ! elementRef ?it)"
    using scanNode_item(7) [OF s that] n by simp
qed

lemma distinct_nth_notin_rest:
  assumes "distinct xs" "j < length xs"
  shows "xs ! j \<notin> set (take j xs @ drop (Suc j) xs)"
proof -
  have "xs = take j xs @ xs ! j # drop (Suc j) xs"
    using assms(2) by (rule id_take_nth_drop)
  then have "distinct (take j xs @ xs ! j # drop (Suc j) xs)"
    using assms(1) by simp
  then show ?thesis by auto
qed

text \<open>
  C10. The merge compares the first 200 characters of the normalized text, the
  signature hashes the first 400. Of two messages of one scan whose normalized texts
  agree on their first 200 characters the later one is dropped from the batch,
  whatever follows character 200.
\<close>

theorem near_duplicate_merge_first_200:
  "i < j \<Longrightarrow> j < length (fst (getAllMessagesForCurrentConv lc st)) \<Longrightarrow>
   take 200 (normalizeText lc (rawText (fst (getAllMessagesForCurrentConv lc st) ! i))) =
     take 200 (normalizeText lc (rawText (fst (getAllMessagesForCurrentConv lc st) ! j))) \<Longrightarrow>
   fst (getAllMessagesForCurrentConv lc st) ! j \<notin>
     set (uniqueOrdered (fst (getAllMessagesForCurrentConv lc st))) \<and>
   uniqueOrdered (fst (getAllMessagesForCurrentConv lc st)) =
     uniqueOrdered (take j (fst (getAllMessagesForCurrentConv lc st)) @
                    drop (Suc j) (fst (getAllMessagesForCurrentConv lc st))) \<and>
   normKey (fst (getAllMessagesForCurrentConv lc st) ! j) =
     take 200 (normalizeText lc (rawText (fst (getAllMessagesForCurrentConv lc st) ! j))) \<and>
   (\<not> hasSignature (elements st ! elementRef (fst (getAllMessagesForCurrentConv lc st) ! j)) \<longrightarrow>
    signature (fst (getAllMessagesForCurrentConv lc st) ! j) =
      computedSignature
        (take 400 (normalizeText lc (rawText (fst (getAllMessagesForCurrentConv lc st) ! j)))))"
proof -
  let ?items = "fst (getAllMessagesForCurrentConv lc st)"
  assume ij: "i < j" and j: "j < length ?items"
    and eq: "take 200 (normalizeText lc (rawText (?items ! i))) =
             take 200 (normalizeText lc (rawText (?items ! j)))"
  from ij j have i: "i < length ?items" by simp
  have keys: "normKey (?items ! i) = normKey (?items ! j)"
    using getAll_nth(2) [OF i] getAll_nth(2) [OF j] eq by simp
  have "?items ! i \<in> set (take j ?items)"
    using ij j by (auto simp: in_set_conv_nth intro!: exI [of _ i])
  from uniqueOrdered_covers [OF this] keys
  have dup: "\<exists>a \<in> set (uniqueOrdered (take j ?items)). nearDup (normKey a) (normKey (?items ! j))"
    by simp
  have same: "uniqueOrdered ?items = uniqueOrdered (take j ?items @ drop (Suc j) ?items)"
    by (rule uniqueOrdered_drop_at [OF j dup])
  have "?items ! j \<notin> set (take j ?items @ drop (Suc j) ?items)"
    by (rule distinct_nth_notin_rest [OF getAll_distinct j])
  with uniqueOrdered_subset [of "take j ?items @ drop (Suc j) ?items"]
  have "?items ! j \<notin> set (uniqueOrdered (take j ?items @ drop (Suc j) ?items))"
    by blast
  with same have gone: "?items ! j \<notin> set (uniqueOrdered ?items)"
    by simp
  from gone same getAll_nth(2) [OF j] getAll_nth(3) [OF j] show ?thesis
    by blast
qed

lemma collapseWs_no_space: "\<forall>c \<in> set s. \<not> isSpace c \<Longrightarrow> collapseWs s = s"
  by (induction s) auto

lemma dropWhile_none: "\<forall>c \<in> set s. \<not> P c \<Longrightarrow> dropWhile P s = s"
  by (cases s) auto

lemma trim_no_space: "\<forall>c \<in> set s. \<not> isSpace c \<Longrightarrow> trim s = s"
  by (simp add: trim_def dropWhile_none)

lemma asciiLower_lower: "\<forall>c \<in> set s. \<not> (65 \<le> c \<and> c \<le> 90) \<Longrightarrow> asciiLower s = s"
  by (auto simp: asciiLower_def intro: map_idI)

lemma longPage_items:
  "map rawText (fst (getAllMessagesForCurrentConv asciiLower longPage)) =
     [replicate 200 97 @ [98], replicate 200 97 @ [99]]"
  "map norm (fst (getAllMessagesForCurrentConv asciiLower longPage)) =
     [replicate 200 97 @ [98], replicate 200 97 @ [99]]"
  by (simp_all add: longPage_def freshState_def messageNode_def getAllMessagesForCurrentConv_def
        scanNode_def Let_def isUserMessage_def trimmedInnerText_def normalizeText_def
        collapseWs_no_space trim_no_space asciiLower_lower isSpace_def)

lemma longPage_refs:
  "map elementRef (fst (getAllMessagesForCurrentConv asciiLower longPage)) = [0, 1]"
  by (simp add: getAll_refs longPage_def freshState_def messageNode_def isUserMessage_def
        trimmedInnerText_def trim_no_space isSpace_def upt_rec)

theorem near_duplicate_merge_first_200_witness:
  "length (fst (getAllMessagesForCurrentConv asciiLower longPage)) = 2 \<and>
   fst (getAllMessagesForCurrentConv asciiLower longPage) ! 1 \<notin>
     set (uniqueOrdered (fst (getAllMessagesForCurrentConv asciiLower longPage))) \<and>
   norm (fst (getAllMessagesForCurrentConv asciiLower longPage) ! 0) = replicate 200 97 @ [98] \<and>
   norm (fst (getAllMessagesForCurrentConv asciiLower longPage) ! 1) = replicate 200 97 @ [99] \<and>
   signature (fst (getAllMessagesForCurrentConv asciiLower longPage) ! 1) =
     computedSignature (replicate 200 97 @ [99]) \<and>
   \<not> prefix (replicate 200 97 @ [98 :: nat]) (replicate 200 97 @ [99]) \<and>
   \<not> prefix (replicate 200 97 @ [99 :: nat]) (replicate 200 97 @ [98])"
proof -
  let ?items = "fst (getAllMessagesForCurrentConv asciiLower longPage)"
  have len: "length ?items = 2"
    using arg_cong [OF longPage_items(1), of length] by simp
  have raw: "rawText (?items ! 0) = replicate 200 97 @ [98]"
    "rawText (?items ! 1) = replicate 200 97 @ [99]"
    using len arg_cong [OF longPage_items(1), of "\<lambda>xs. xs ! 0"]
      arg_cong [OF longPage_items(1), of "\<lambda>xs. xs ! 1"] by simp_all
  have nrm: "norm (?items ! 0) = replicate 200 97 @ [98]"
    "norm (?items ! 1) = replicate 200 97 @ [99]"
    using len arg_cong [OF longPage_items(2), of "\<lambda>xs. xs ! 0"]
      arg_cong [OF longPage_items(2), of "\<lambda>xs. xs ! 1"] by simp_all
  have ref: "elementRef (?items ! 1) = 1"
    using len arg_cong [OF longPage_refs, of "\<lambda>xs. xs ! 1"] by simp
  have nosig: "\<not> hasSignature (elements longPage ! elementRef (?items ! 1))"
    unfolding ref by (simp add: longPage_def freshState_def messageNode_def hasSignature_def)
  have full: "take 400 (normalizeText asciiLower (rawText (?items ! 1))) = replicate 200 97 @ [99]"
    unfolding raw
    by (simp add: normalizeText_def collapseWs_no_space trim_no_space asciiLower_lower isSpace_def)
  have eq: "take 200 (normalizeText asciiLower (rawText (?items ! 0))) =
            take 200 (normalizeText asciiLower (rawText (?items ! 1)))"
    unfolding raw
    by (simp add: normalizeText_def collapseWs_no_space trim_no_space asciiLower_lower isSpace_def)
  have j: "(1::nat) < length ?items"
    using len by simp
  note t = near_duplicate_merge_first_200 [OF zero_less_one j eq]
  from t have gone: "?items ! 1 \<notin> set (uniqueOrdered ?items)"
    by (rule conjunct1)
  from t nosig have "signature (?items ! 1) =
      computedSignature (take 400 (normalizeText asciiLower (rawText (?items ! 1))))"
    by blast
  then have sig: "signature (?items ! 1) = computedSignature (replicate 200 97 @ [99])"
    by (simp only: full)
  from len gone nrm sig show ?thesis by simp
qed

subsection \<open>The seen sets\<close>

lemma ui_frame [simp]:
  "convSeen (ensureSidebar st) = convSeen st" "elements (ensureSidebar st) = elements st"
  "loc (ensureSidebar st) = loc st" "toggleBtn (ensureSidebar st) = toggleBtn st"
  "styleEl (ensureSidebar st) = styleEl st"
  "convSeen (addStyles st) = convSeen st" "elements (addStyles st) = elements st"
  "loc (addStyles st) = loc st" "toggleBtn (addStyles st) = toggleBtn st"
  "sidebar (addStyles st) = sidebar st"
  "convSeen (setList cs st) = convSeen st" "elements (setList cs st) = elements st"
  "loc (setList cs st) = loc st" "toggleBtn (setList cs st) = toggleBtn st"
  "styleEl (setList cs st) = styleEl st"
  "convSeen (setDisplay d st) = convSeen st" "elements (setDisplay d st) = elements st"
  "loc (setDisplay d st) = loc st" "toggleBtn (setDisplay d st) = toggleBtn st"
  "styleEl (setDisplay d st) = styleEl st"
  "convSeen (setExpanded b st) = convSeen st" "elements (setExpanded b st) = elements st"
  "loc (setExpanded b st) = loc st" "sidebar (setExpanded b st) = sidebar st"
  "styleEl (setExpanded b st) = styleEl st"
  by (simp_all add: ensureSidebar_def addStyles_def setList_def setDisplay_def setExpanded_def
        split: option.splits)

lemma renderItems_frame [simp]:
  "convSeen (renderItems qs st) = convSeen st" "elements (renderItems qs st) = elements st"
  "loc (renderItems qs st) = loc st" "toggleBtn (renderItems qs st) = toggleBtn st"
  "styleEl (renderItems qs st) = styleEl st"
  by (induction qs arbitrary: st; simp)+

lemma updateSidebar_frame [simp]:
  "convSeen (updateSidebar qs a st) = convSeen st" "elements (updateSidebar qs a st) = elements st"
  "loc (updateSidebar qs a st) = loc st" "toggleBtn (updateSidebar qs a st) = toggleBtn st"
  by (simp_all add: updateSidebar_def Let_def)

lemma seenOf_cong: "convSeen st' = convSeen st \<Longrightarrow> seenOf st' = seenOf st"
  by (rule ext) (simp add: seenOf_def)

lemma ensureConvSet_fst: "fst (ensureConvSet key st) = seenOf st key"
  by (simp add: ensureConvSet_def seenOf_def split: option.splits)

lemma ensureConvSet_registered: "convSeen (snd (ensureConvSet key st)) key \<noteq> None"
  by (simp add: ensureConvSet_def split: option.splits)

lemma ensureConvSet_seenOf: "seenOf (snd (ensureConvSet key st)) k = seenOf st k"
  by (simp add: ensureConvSet_def seenOf_def split: option.splits)

lemma ensureConvSet_existing: "convSeen st key = Some s \<Longrightarrow> ensureConvSet key st = (s, st)"
  by (simp add: ensureConvSet_def)

lemma seenAdd_other: "k \<noteq> key \<Longrightarrow> convSeen (seenAdd key st sig) k = convSeen st k"
  by (simp add: seenAdd_def split: option.splits)

lemma seenAdd_dom: "convSeen st k \<noteq> None \<Longrightarrow> convSeen (seenAdd key st sig) k \<noteq> None"
  by (simp add: seenAdd_def split: option.splits)

lemma seenAdd_seenOf:
  "convSeen st key \<noteq> None \<Longrightarrow>
   seenOf (seenAdd key st sig) k = (if k = key then insert sig (seenOf st key) else seenOf st k)"
  by (auto simp: seenAdd_def seenOf_def split: option.splits)

lemma foldl_seenAdd_other:
  "k \<noteq> key \<Longrightarrow> convSeen (foldl (seenAdd key) st sigs) k = convSeen st k"
  by (induction sigs arbitrary: st) (simp_all add: seenAdd_other)

lemma foldl_seenAdd_seenOf:
  "convSeen st key \<noteq> None \<Longrightarrow>
   seenOf (foldl (seenAdd key) st sigs) k =
     (if k = key then seenOf st key \<union> set sigs else seenOf st k)"
proof (induction sigs arbitrary: st)
  case Nil
  then show ?case by simp
next
  case (Cons sig sigs)
  from Cons.prems have "convSeen (seenAdd key st sig) key \<noteq> None"
    by (rule seenAdd_dom)
  from Cons.IH [OF this] Cons.prems show ?case
    by (auto simp: seenAdd_seenOf)
qed

text \<open>Marking: \<open>ensureConvSet\<close>, a scan, and \<open>seen.add\<close> for each of the signatures.\<close>

lemma mark_seenOf:
  assumes "convSeen st1 = convSeen (snd (ensureConvSet key st))"
  shows "seenOf (foldl (seenAdd key) st1 sigs) k =
           (if k = key then seenOf st key \<union> set sigs else seenOf st k)"
proof -
  have reg: "convSeen st1 key \<noteq> None"
    using assms ensureConvSet_registered [of key st] by simp
  have "seenOf st1 = seenOf (snd (ensureConvSet key st))"
    using assms by (rule seenOf_cong)
  then have "seenOf st1 k' = seenOf st k'" for k'
    by (simp add: ensureConvSet_seenOf)
  with foldl_seenAdd_seenOf [OF reg] show ?thesis by simp
qed

lemma getAll_cong:
  assumes "loc st' = loc st" "elements st' = elements st"
  shows "fst (getAllMessagesForCurrentConv lc st') = fst (getAllMessagesForCurrentConv lc st)"
    "elements (snd (getAllMessagesForCurrentConv lc st')) =
       elements (snd (getAllMessagesForCurrentConv lc st))"
  using assms by (simp_all add: getAllMessagesForCurrentConv_def Let_def case_prod_beta)

lemma initialSilentMark_seenOf:
  "seenOf (initialSilentMark lc st) k =
     (if k = getConversationKey (loc st)
      then seenOf st k \<union> set (map signature (fst (getAllMessagesForCurrentConv lc st)))
      else seenOf st k)"
proof -
  let ?key = "getConversationKey (loc st)"
  let ?st1 = "snd (ensureConvSet ?key st)"
  let ?st2 = "snd (getAllMessagesForCurrentConv lc ?st1)"
  have items: "fst (getAllMessagesForCurrentConv lc ?st1) = fst (getAllMessagesForCurrentConv lc st)"
    by (rule getAll_cong) simp_all
  have "seenOf (initialSilentMark lc st) =
        seenOf (foldl (seenAdd ?key) ?st2 (map signature (fst (getAllMessagesForCurrentConv lc st))))"
    by (rule seenOf_cong) (simp add: initialSilentMark_def Let_def case_prod_beta items)
  then have "seenOf (initialSilentMark lc st) k =
        seenOf (foldl (seenAdd ?key) ?st2 (map signature (fst (getAllMessagesForCurrentConv lc st)))) k"
    by (simp only:)
  also have "\<dots> = (if k = ?key
      then seenOf st ?key \<union> set (map signature (fst (getAllMessagesForCurrentConv lc st)))
      else seenOf st k)"
    by (rule mark_seenOf) simp
  finally show ?thesis by auto
qed

lemma initialSilentMark_elements:
  "elements (initialSilentMark lc st) = elements (snd (getAllMessagesForCurrentConv lc st))"
proof -
  have "elements (initialSilentMark lc st) =
        elements (snd (getAllMessagesForCurrentConv lc
          (snd (ensureConvSet (getConversationKey (loc st)) st))))"
    by (simp add: initialSilentMark_def Let_def case_prod_beta)
  also have "\<dots> = elements (snd (getAllMessagesForCurrentConv lc st))"
    by (rule getAll_cong(2)) simp_all
  finally show ?thesis .
qed

lemma ensureConvSet_other:
  "k \<noteq> key \<Longrightarrow> convSeen (snd (ensureConvSet key st)) k = convSeen st k"
  by (simp add: ensureConvSet_def split: option.splits)

lemma initialSilentMark_other:
  assumes "k \<noteq> getConversationKey (loc st)"
  shows "convSeen (initialSilentMark lc st) k = convSeen st k"
  using assms
  by (simp add: initialSilentMark_def Let_def case_prod_beta foldl_seenAdd_other ensureConvSet_other)

lemma toggleSidebar_False_convSeen: "convSeen (toggleSidebar lc False st) = convSeen st"
  by (simp add: toggleSidebar_def Let_def)

lemma toggleSidebar_True_seenOf:
  "seenOf (toggleSidebar lc True st) k =
     (if k = getConversationKey (loc st)
      then seenOf st k \<union>
           set (map signature (uniqueOrdered (fst (getAllMessagesForCurrentConv lc st))))
      else seenOf st k)"
proof -
  let ?key = "getConversationKey (loc st)"
  let ?st2 = "setExpanded True (setDisplay (jss ''block'') (addStyles (ensureSidebar (ensureToggleButton st))))"
  let ?st3 = "snd (getAllMessagesForCurrentConv lc ?st2)"
  let ?sigs = "map signature (uniqueOrdered (fst (getAllMessagesForCurrentConv lc st)))"
  have items: "fst (getAllMessagesForCurrentConv lc ?st2) = fst (getAllMessagesForCurrentConv lc st)"
    by (rule getAll_cong) simp_all
  have "seenOf (toggleSidebar lc True st) =
        seenOf (foldl (seenAdd ?key) (snd (ensureConvSet ?key ?st3)) ?sigs)"
    by (rule seenOf_cong) (simp add: toggleSidebar_def Let_def case_prod_beta items)
  then have "seenOf (toggleSidebar lc True st) k =
        seenOf (foldl (seenAdd ?key) (snd (ensureConvSet ?key ?st3)) ?sigs) k"
    by (simp only:)
  also have "\<dots> = (if k = ?key then seenOf ?st3 ?key \<union> set ?sigs else seenOf ?st3 k)"
    by (rule mark_seenOf) (rule refl)
  also have "seenOf ?st3 = seenOf st"
    by (rule seenOf_cong) simp
  finally show ?thesis by auto
qed

lemma toggleSidebar_True_other:
  assumes "k \<noteq> getConversationKey (loc st)"
  shows "convSeen (toggleSidebar lc True st) k = convSeen st k"
  using assms
  by (simp add: toggleSidebar_def Let_def case_prod_beta foldl_seenAdd_other ensureConvSet_other)

lemma append_seenOf:
  "seenOf (snd (appendNewMessagesForCurrentConv lc st)) k =
     (if k = getConversationKey (loc st)
      then seenOf st k \<union> set (map signature (detected lc st))
      else seenOf st k)"
proof -
  let ?key = "getConversationKey (loc st)"
  let ?st1 = "snd (ensureConvSet ?key st)"
  let ?st2 = "snd (getAllMessagesForCurrentConv lc ?st1)"
  have items: "fst (getAllMessagesForCurrentConv lc ?st1) = fst (getAllMessagesForCurrentConv lc st)"
    by (rule getAll_cong) simp_all
  have c2: "convSeen ?st2 = convSeen ?st1"
    by simp
  have "seenOf (snd (appendNewMessagesForCurrentConv lc st)) =
        seenOf (foldl (seenAdd ?key) ?st2 (map signature (detected lc st)))"
    by (rule seenOf_cong)
      (simp add: appendNewMessagesForCurrentConv_def detected_def Let_def case_prod_beta items
         ensureConvSet_fst uniqueOrdered_Nil)
  then have "seenOf (snd (appendNewMessagesForCurrentConv lc st)) k =
        seenOf (foldl (seenAdd ?key) ?st2 (map signature (detected lc st))) k"
    by (simp only:)
  also have "\<dots> = (if k = ?key then seenOf st ?key \<union> set (map signature (detected lc st))
                     else seenOf st k)"
    by (rule mark_seenOf) (rule c2)
  finally show ?thesis by auto
qed

lemma append_other:
  assumes "k \<noteq> getConversationKey (loc st)"
  shows "convSeen (snd (appendNewMessagesForCurrentConv lc st)) k = convSeen st k"
  using assms
  by (simp add: appendNewMessagesForCurrentConv_def Let_def case_prod_beta foldl_seenAdd_other
        ensureConvSet_other)

lemma append_count: "fst (appendNewMessagesForCurrentConv lc st) = length (detected lc st)"
proof -
  have "fst (getAllMessagesForCurrentConv lc (snd (ensureConvSet (getConversationKey (loc st)) st)))
        = fst (getAllMessagesForCurrentConv lc st)"
    by (rule getAll_cong) simp_all
  then show ?thesis
    by (simp add: appendNewMessagesForCurrentConv_def detected_def Let_def case_prod_beta
          ensureConvSet_fst uniqueOrdered_Nil)
qed

lemma append_hidden_sidebar:
  assumes "\<not> sidebarVisible st"
  shows "sidebar (snd (appendNewMessagesForCurrentConv lc st)) = sidebar st"
    "toggleBtn (snd (appendNewMessagesForCurrentConv lc st)) = toggleBtn st"
  using assms
  by (simp_all add: appendNewMessagesForCurrentConv_def Let_def case_prod_beta sidebarVisible_def)

lemma convPollTick_seenOf:
  "seenOf (convPollTick lc st) k =
     (if getConversationKey (loc st) \<noteq> lastConv st \<and> k = getConversationKey (loc st)
      then seenOf st k \<union> set (map signature (fst (getAllMessagesForCurrentConv lc st)))
      else seenOf st k)"
proof (cases "getConversationKey (loc st) = lastConv st")
  case True
  then show ?thesis by (simp add: convPollTick_def)
next
  case False
  let ?st2 = "(consoleLog (LogConvChanged (lastConv st) (getConversationKey (loc st))) st)
                \<lparr>lastConv := getConversationKey (loc st)\<rparr>"
  have "seenOf (convPollTick lc st) = seenOf (initialSilentMark lc ?st2)"
    using False by (intro seenOf_cong) (simp add: convPollTick_def Let_def)
  moreover have "fst (getAllMessagesForCurrentConv lc ?st2) = fst (getAllMessagesForCurrentConv lc st)"
    by (rule getAll_cong) simp_all
  moreover have "seenOf ?st2 = seenOf st"
    by (rule seenOf_cong) simp
  ultimately show ?thesis
    using False by (simp add: initialSilentMark_seenOf)
qed

lemma convPollTick_other:
  assumes "k \<noteq> getConversationKey (loc st)"
  shows "convSeen (convPollTick lc st) k = convSeen st k"
  using assms by (simp add: convPollTick_def Let_def initialSilentMark_other)

lemma readinessTick_seenOf: "seenOf st k \<subseteq> seenOf (readinessTick lc st) k"
proof (cases "chatRootFound (st\<lparr>attempts := attempts st + 1\<rparr>)")
  case True
  let ?st3 = "(ensureToggleButton (consoleLog LogRootFound (st\<lparr>attempts := attempts st + 1, readyTimer := False\<rparr>)))
               \<lparr>installed := True\<rparr>"
  have "seenOf (readinessTick lc st) = seenOf (initialSilentMark lc ?st3)"
    using True by (intro seenOf_cong) (simp add: readinessTick_def Let_def)
  moreover have "seenOf ?st3 = seenOf st"
    by (rule seenOf_cong) simp
  ultimately show ?thesis
    by (simp add: initialSilentMark_seenOf)
next
  case False
  have "seenOf (readinessTick lc st) = seenOf st"
    using False by (intro seenOf_cong) (simp add: readinessTick_def Let_def)
  then show ?thesis by simp
qed

lemma toggleSidebar_seenOf: "seenOf st k \<subseteq> seenOf (toggleSidebar lc b st) k"
proof (cases b)
  case True
  then show ?thesis by (simp add: toggleSidebar_True_seenOf)
next
  case False
  have "seenOf (toggleSidebar lc False st) = seenOf st"
    by (rule seenOf_cong) (rule toggleSidebar_False_convSeen)
  with False show ?thesis by simp
qed

lemma step_seenOf: "seenOf st k \<subseteq> seenOf (step lc st ev) k"
proof (cases ev)
  case (HostChange p)
  have "seenOf (setPage p st) = seenOf st"
    by (rule seenOf_cong) (simp add: setPage_def)
  with HostChange show ?thesis by simp
qed (auto simp: toggleSidebar_seenOf [THEN subsetD] append_seenOf convPollTick_seenOf
      split: option.splits)

lemma run_seenOf: "seenOf st k \<subseteq> seenOf (run lc st evs) k"
proof (induction evs arbitrary: st)
  case Nil
  show ?case by (simp add: run_def)
next
  case (Cons ev evs)
  have "seenOf st k \<subseteq> seenOf (step lc st ev) k"
    by (rule step_seenOf)
  also have "\<dots> \<subseteq> seenOf (run lc (step lc st ev) evs) k"
    by (rule Cons.IH)
  finally show ?case by (simp add: run_def)
qed

text \<open>
  C9. The seen set of every conversation key only grows. \<open>ensureConvSet\<close> returns a
  set that is registered as it is and leaves the state alone; the initial silent mark,
  the mutation callback, the toggle (open or close), the conversation poll, the
  readiness callback, and so every sequence of the script's callbacks and of changes of
  the page by the host, keep every signature of every set.
\<close>

theorem seen_sets_only_grow:
  "(convSeen st key = Some s \<longrightarrow> ensureConvSet key st = (s, st)) \<and>
   seenOf st key \<subseteq> seenOf (initialSilentMark lc st) key \<and>
   seenOf st key \<subseteq> seenOf (snd (appendNewMessagesForCurrentConv lc st)) key \<and>
   seenOf st key \<subseteq> seenOf (toggleSidebar lc b st) key \<and>
   seenOf st key \<subseteq> seenOf (convPollTick lc st) key \<and>
   seenOf st key \<subseteq> seenOf (readinessTick lc st) key \<and>
   seenOf st key \<subseteq> seenOf (run lc st evs) key"
  using ensureConvSet_existing [of st key s] toggleSidebar_seenOf [of st key lc b]
    readinessTick_seenOf [of st key lc] run_seenOf [of st key lc evs]
  by (simp add: initialSilentMark_seenOf append_seenOf convPollTick_seenOf)

text \<open>
  C6. While the panel is closed (no sidebar yet, or its \<open>display\<close> is not "block"),
  the mutation callback leaves the sidebar, and so its list, as it is, and adds the
  signatures of the messages it detects to the set of the current conversation.
\<close>

theorem hidden_panel_detection_is_silent:
  "\<not> sidebarVisible st \<Longrightarrow>
   sidebar (snd (appendNewMessagesForCurrentConv lc st)) = sidebar st \<and>
   listOf (snd (appendNewMessagesForCurrentConv lc st)) = listOf st \<and>
   seenOf (snd (appendNewMessagesForCurrentConv lc st)) (getConversationKey (loc st)) =
     seenOf st (getConversationKey (loc st)) \<union> set (map signature (detected lc st)) \<and>
   fst (appendNewMessagesForCurrentConv lc st) = length (detected lc st)"
  by (simp add: append_hidden_sidebar append_seenOf append_count listOf_def)

theorem hidden_panel_detection_is_silent_witness:
  "\<not> sidebarVisible closedPage \<and>
   sidebar closedPage = Some \<lparr>display = jss ''none'', listChildren = []\<rparr> \<and>
   sidebar (snd (appendNewMessagesForCurrentConv asciiLower closedPage)) =
     Some \<lparr>display = jss ''none'', listChildren = []\<rparr> \<and>
   seenOf closedPage (getConversationKey chatLoc) = {} \<and>
   seenOf (snd (appendNewMessagesForCurrentConv asciiLower closedPage)) (getConversationKey chatLoc) =
     {computedSignature (jss ''hi'')} \<and>
   fst (appendNewMessagesForCurrentConv asciiLower closedPage) = 1"
proof -
  have sb: "sidebar closedPage = Some \<lparr>display = jss ''none'', listChildren = []\<rparr>"
    by (simp add: closedPage_def state_defs freshState_def Let_def)
  have hidden: "\<not> sidebarVisible closedPage"
    by (simp add: sidebarVisible_def sb jss_def)
  have key: "getConversationKey (loc closedPage) = getConversationKey chatLoc"
    by (simp add: closedPage_def toggleSidebar_def Let_def freshState_def)
  have seen: "seenOf closedPage (getConversationKey chatLoc) = {}"
    by (simp add: closedPage_def state_defs freshState_def Let_def)
  have det: "map signature (detected asciiLower closedPage) = [computedSignature (jss ''hi'')]"
    unfolding detected_def key seen
    by (simp add: closedPage_def state_defs eval_defs)
  have "length (map signature (detected asciiLower closedPage)) = 1"
    unfolding det by simp
  then have len: "length (detected asciiLower closedPage) = 1"
    by simp
  from hidden_panel_detection_is_silent [OF hidden, of asciiLower] sb key seen det len hidden
  show ?thesis
    by simp
qed

theorem seen_sets_only_grow_witness:
  "convSeen markedPage (getConversationKey chatLoc) = Some {computedSignature (jss ''hello world'')} \<and>
   ensureConvSet (getConversationKey chatLoc) markedPage =
     ({computedSignature (jss ''hello world'')}, markedPage) \<and>
   computedSignature (jss ''hello world'') \<in>
     seenOf (run asciiLower markedPage [HostChange otherPage, ConvPoll, ToggleClick, EscapeKey, Mutation])
       (getConversationKey chatLoc)"
proof -
  let ?key = "getConversationKey chatLoc"
  let ?sig = "computedSignature (jss ''hello world'')"
  let ?evs = "[HostChange otherPage, ConvPoll, ToggleClick, EscapeKey, Mutation]"
  have reg: "convSeen markedPage ?key = Some {?sig}"
    by (simp add: markedPage_def helloPage_def state_defs eval_defs)
  then have "?sig \<in> seenOf markedPage ?key"
    by (simp add: seenOf_def)
  with seen_sets_only_grow [of markedPage ?key "{?sig}" asciiLower True ?evs] reg
  show ?thesis by blast
qed

subsection \<open>The readiness interval\<close>

lemma chatRootFound_setPage [simp]:
  "chatRootFound ((setPage p st)\<lparr>attempts := a\<rparr>) = hostRoot p"
  by (simp add: chatRootFound_def hostRoot_def setPage_def)

lemma readinessPoll_timer: "\<not> readyTimer (readinessPoll lc pages st)"
proof (induction lc pages st rule: readinessPoll.induct)
  case (1 lc pages st)
  show ?case
  proof (cases "readyTimer (readinessTick lc (setPage (pages (attempts st + 1)) st))")
    case True
    with 1 show ?thesis
      by (subst readinessPoll.simps) (simp add: Let_def)
  next
    case False
    then show ?thesis
      by (subst readinessPoll.simps) (simp add: Let_def)
  qed
qed

lemma readinessTick_found:
  assumes "hostRoot p"
  shows "\<not> readyTimer (readinessTick lc (setPage p st))"
    "attempts (readinessTick lc (setPage p st)) = attempts st + 1"
    "installed (readinessTick lc (setPage p st))"
    "toggleBtn (readinessTick lc (setPage p st)) \<noteq> None"
  using assms
  by (auto simp: readinessTick_def Let_def setPage_def chatRootFound_def hostRoot_def
        ensureToggleButton_def split: option.splits)

lemma readinessTick_exhausted:
  assumes "\<not> hostRoot p" "attempts st + 1 > 40"
  shows "readinessTick lc (setPage p st) =
           (setPage p st)\<lparr>attempts := attempts st + 1, readyTimer := False,
                           logs := logs st @ [WarnNoRoot]\<rparr>"
  using assms
  by (simp add: readinessTick_def Let_def setPage_def chatRootFound_def hostRoot_def consoleLog_def)

lemma readinessTick_waiting:
  assumes "\<not> hostRoot p" "\<not> attempts st + 1 > 40"
  shows "readinessTick lc (setPage p st) = (setPage p st)\<lparr>attempts := attempts st + 1\<rparr>"
  using assms
  by (simp add: readinessTick_def Let_def setPage_def chatRootFound_def hostRoot_def)

lemma readinessPoll_result:
  "readyTimer st \<Longrightarrow>
   attempts st < attempts (readinessPoll lc pages st) \<and>
   attempts (readinessPoll lc pages st) \<le> max 41 (Suc (attempts st)) \<and>
   (\<forall>m. attempts st < m \<and> m < attempts (readinessPoll lc pages st) \<longrightarrow> \<not> hostRoot (pages m)) \<and>
   (hostRoot (pages (attempts (readinessPoll lc pages st))) \<longrightarrow>
      installed (readinessPoll lc pages st) \<and> toggleBtn (readinessPoll lc pages st) \<noteq> None) \<and>
   (\<not> hostRoot (pages (attempts (readinessPoll lc pages st))) \<longrightarrow>
      40 < attempts (readinessPoll lc pages st) \<and>
      readinessPoll lc pages st =
        (setPage (pages (attempts (readinessPoll lc pages st))) st)
          \<lparr>attempts := attempts (readinessPoll lc pages st), readyTimer := False,
           logs := logs st @ [WarnNoRoot]\<rparr>)"
proof (induction lc pages st rule: readinessPoll.induct)
  case (1 lc pages st)
  define p where "p = pages (attempts st + 1)"
  define st1 where "st1 = readinessTick lc (setPage p st)"
  have unfold: "readinessPoll lc pages st = (if readyTimer st1 then readinessPoll lc pages st1 else st1)"
    by (subst readinessPoll.simps) (simp add: Let_def st1_def p_def)
  have p: "pages (Suc (attempts st)) = p"
    by (simp add: p_def)
  show ?case
  proof (cases "hostRoot p")
    case True
    note f = readinessTick_found [OF True, of lc st, folded st1_def]
    have r: "readinessPoll lc pages st = st1"
      using f(1) by (simp add: unfold)
    have a: "attempts st1 = Suc (attempts st)"
      using f(2) by simp
    show ?thesis
      unfolding r a p using True f(3,4) by auto
  next
    case noroot: False
    show ?thesis
    proof (cases "attempts st + 1 > 40")
      case True
      note e = readinessTick_exhausted [OF noroot True, of lc, folded st1_def]
      have "\<not> readyTimer st1"
        by (subst e) simp
      then have r: "readinessPoll lc pages st = st1"
        by (simp add: unfold)
      have a: "attempts st1 = Suc (attempts st)"
        by (subst e) simp
      have "st1 = (setPage p st)\<lparr>attempts := Suc (attempts st), readyTimer := False,
                                  logs := logs st @ [WarnNoRoot]\<rparr>"
        by (subst e) simp
      then show ?thesis
        unfolding r a p using noroot True by auto
    next
      case False
      note w = readinessTick_waiting [OF noroot False, of lc, folded st1_def]
      have t: "readyTimer st1"
        using "1.prems" by (subst w) (simp add: setPage_def)
      have r: "readinessPoll lc pages st = readinessPoll lc pages st1"
        using t by (simp add: unfold)
      have a1: "attempts st1 = Suc (attempts st)"
        by (subst w) simp
      have "st1 = readinessTick lc (setPage (pages (attempts st + 1)) st)"
        by (simp add: st1_def p_def)
      note ih = "1.IH" [OF this t t]
      define n where "n = attempts (readinessPoll lc pages st1)"
      from ih have lt: "Suc (attempts st) < n" and le: "n \<le> max 41 (Suc (Suc (attempts st)))"
        and before: "\<forall>m. Suc (attempts st) < m \<and> m < n \<longrightarrow> \<not> hostRoot (pages m)"
        and found: "hostRoot (pages n) \<longrightarrow>
           installed (readinessPoll lc pages st1) \<and> toggleBtn (readinessPoll lc pages st1) \<noteq> None"
        and gaveup: "\<not> hostRoot (pages n) \<longrightarrow> 40 < n \<and>
           readinessPoll lc pages st1 =
             (setPage (pages n) st1)\<lparr>attempts := n, readyTimer := False,
                                       logs := logs st1 @ [WarnNoRoot]\<rparr>"
        unfolding n_def a1 by blast+
      have before': "\<forall>m. attempts st < m \<and> m < n \<longrightarrow> \<not> hostRoot (pages m)"
      proof (intro allI impI)
        fix m assume m: "attempts st < m \<and> m < n"
        show "\<not> hostRoot (pages m)"
        proof (cases "m = Suc (attempts st)")
          case True
          with noroot p show ?thesis by simp
        next
          case False
          with m before show ?thesis by simp
        qed
      qed
      have eq: "(setPage (pages n) st1)\<lparr>attempts := n, readyTimer := False,
                                          logs := logs st1 @ [WarnNoRoot]\<rparr> =
                (setPage (pages n) st)\<lparr>attempts := n, readyTimer := False,
                                         logs := logs st @ [WarnNoRoot]\<rparr>"
        by (subst (1 2) w) (simp add: setPage_def)
      have le': "n \<le> max 41 (Suc (attempts st))"
        using le False by simp
      have lt': "attempts st < n"
        using lt by simp
      from lt' le' before' found gaveup show ?thesis
        unfolding r n_def [symmetric] eq by blast
    qed
  qed
qed

text \<open>
  C8. The readiness interval (250 ms) ends in every execution, with its timer cleared,
  after at most 41 runs of its callback (10.25 s): at the first tick at which the page
  has a chat root, where the script is set up, or, when the page has none at any of
  the first 41 ticks, at the 41st, where the only effect is the warning in the log:
  no toggle button, no listener, no observer, no poll.
\<close>

theorem readiness_poll_terminates:
  "\<not> readyTimer (setupObserverAndHandlers lc pages st) \<and>
   1 \<le> attempts (setupObserverAndHandlers lc pages st) \<and>
   attempts (setupObserverAndHandlers lc pages st) \<le> 41 \<and>
   attempts (setupObserverAndHandlers lc pages st) * readyIntervalMs \<le> 10250 \<and>
   (\<forall>m. 1 \<le> m \<and> m < attempts (setupObserverAndHandlers lc pages st) \<longrightarrow>
        \<not> hostRoot (pages m)) \<and>
   (hostRoot (pages (attempts (setupObserverAndHandlers lc pages st))) \<longrightarrow>
      installed (setupObserverAndHandlers lc pages st) \<and>
      toggleBtn (setupObserverAndHandlers lc pages st) \<noteq> None) \<and>
   (\<not> hostRoot (pages (attempts (setupObserverAndHandlers lc pages st))) \<longrightarrow>
      attempts (setupObserverAndHandlers lc pages st) = 41 \<and>
      setupObserverAndHandlers lc pages st =
        (setPage (pages 41) st)\<lparr>attempts := 41, readyTimer := False,
                                  logs := logs st @ [WarnNoRoot]\<rparr>)"
proof -
  define st0 where "st0 = st\<lparr>attempts := 0, readyTimer := True\<rparr>"
  define n where "n = attempts (readinessPoll lc pages st0)"
  have s: "setupObserverAndHandlers lc pages st = readinessPoll lc pages st0"
    by (simp add: setupObserverAndHandlers_def st0_def)
  have t: "readyTimer st0" and a0: "attempts st0 = 0"
    by (simp_all add: st0_def)
  from readinessPoll_result [OF t, of lc pages]
  have pos: "0 < n" and le: "n \<le> 41"
    and before: "\<forall>m. 0 < m \<and> m < n \<longrightarrow> \<not> hostRoot (pages m)"
    and found: "hostRoot (pages n) \<longrightarrow>
        installed (readinessPoll lc pages st0) \<and> toggleBtn (readinessPoll lc pages st0) \<noteq> None"
    and gaveup: "\<not> hostRoot (pages n) \<longrightarrow> 40 < n \<and>
        readinessPoll lc pages st0 =
          (setPage (pages n) st0)\<lparr>attempts := n, readyTimer := False,
                                    logs := logs st0 @ [WarnNoRoot]\<rparr>"
    unfolding n_def a0 by simp_all
  have eq: "(setPage q st0)\<lparr>attempts := k, readyTimer := False, logs := logs st0 @ [WarnNoRoot]\<rparr> =
            (setPage q st)\<lparr>attempts := k, readyTimer := False, logs := logs st @ [WarnNoRoot]\<rparr>"
    for q k
    by (simp add: st0_def setPage_def)
  have timer: "\<not> readyTimer (readinessPoll lc pages st0)"
    by (rule readinessPoll_timer)
  have ms: "n * readyIntervalMs \<le> 10250"
    using le by (simp add: readyIntervalMs_def)
  have gaveup': "\<not> hostRoot (pages n) \<longrightarrow> n = 41 \<and>
      readinessPoll lc pages st0 =
        (setPage (pages 41) st)\<lparr>attempts := 41, readyTimer := False,
                                  logs := logs st @ [WarnNoRoot]\<rparr>"
  proof
    assume "\<not> hostRoot (pages n)"
    with gaveup have "40 < n" and r: "readinessPoll lc pages st0 =
          (setPage (pages n) st0)\<lparr>attempts := n, readyTimer := False,
                                    logs := logs st0 @ [WarnNoRoot]\<rparr>"
      by simp_all
    with le have "n = 41" by simp
    with r show "n = 41 \<and> readinessPoll lc pages st0 =
        (setPage (pages 41) st)\<lparr>attempts := 41, readyTimer := False,
                                  logs := logs st @ [WarnNoRoot]\<rparr>"
      by (simp only: eq simp_thms)
  qed
  have before': "\<forall>m. 1 \<le> m \<and> m < n \<longrightarrow> \<not> hostRoot (pages m)"
    using before by simp
  have pos': "1 \<le> n"
    using pos by simp
  from timer pos' le ms before' found gaveup' show ?thesis
    unfolding s n_def [symmetric] by blast
qed

theorem readiness_poll_terminates_witness:
  "attempts (setupObserverAndHandlers asciiLower (\<lambda>k. loadingPage) (freshState chatLoc [])) = 41 \<and>
   logs (setupObserverAndHandlers asciiLower (\<lambda>k. loadingPage) (freshState chatLoc [])) = [WarnNoRoot] \<and>
   toggleBtn (setupObserverAndHandlers asciiLower (\<lambda>k. loadingPage) (freshState chatLoc [])) = None \<and>
   \<not> installed (setupObserverAndHandlers asciiLower (\<lambda>k. loadingPage) (freshState chatLoc [])) \<and>
   \<not> readyTimer (setupObserverAndHandlers asciiLower (\<lambda>k. loadingPage) (freshState chatLoc [])) \<and>
   attempts (setupObserverAndHandlers asciiLower (\<lambda>k. if k < 3 then loadingPage else loadedPage)
     (freshState chatLoc [])) = 3 \<and>
   installed (setupObserverAndHandlers asciiLower (\<lambda>k. if k < 3 then loadingPage else loadedPage)
     (freshState chatLoc []))"
proof -
  let ?never = "setupObserverAndHandlers asciiLower (\<lambda>k. loadingPage) (freshState chatLoc [])"
  let ?pages = "\<lambda>k::nat. if k < 3 then loadingPage else loadedPage"
  let ?third = "setupObserverAndHandlers asciiLower ?pages (freshState chatLoc [])"
  have no: "\<not> hostRoot loadingPage" and yes: "hostRoot loadedPage"
    by (simp_all add: hostRoot_def loadingPage_def loadedPage_def)
  note a = readiness_poll_terminates [of asciiLower "\<lambda>k. loadingPage" "freshState chatLoc []"]
  from a no have "?never =
      (setPage loadingPage (freshState chatLoc []))
        \<lparr>attempts := 41, readyTimer := False, logs := logs (freshState chatLoc []) @ [WarnNoRoot]\<rparr>"
    by blast
  then have never: "attempts ?never = 41 \<and> logs ?never = [WarnNoRoot] \<and> toggleBtn ?never = None \<and>
      \<not> installed ?never \<and> \<not> readyTimer ?never"
    by (simp add: setPage_def freshState_def)
  note b = readiness_poll_terminates [of asciiLower ?pages "freshState chatLoc []"]
  have n3: "attempts ?third = 3"
  proof (rule ccontr)
    assume ne: "attempts ?third \<noteq> 3"
    show False
    proof (cases "attempts ?third < 3")
      case True
      then have "\<not> hostRoot (?pages (attempts ?third))"
        using no by simp
      with b have "attempts ?third = 41" by blast
      with True show False by simp
    next
      case False
      with ne have "1 \<le> (3::nat) \<and> 3 < attempts ?third" by simp
      with b have "\<not> hostRoot (?pages 3)" by blast
      with yes show False by simp
    qed
  qed
  have "hostRoot (?pages (attempts ?third))"
    unfolding n3 using yes by simp
  with b have "installed ?third" by blast
  with never n3 show ?thesis by blast
qed

subsection \<open>Conversations\<close>

lemma detected_other_key:
  assumes "a \<noteq> getConversationKey (loc st)"
  shows "detected lc (st\<lparr>convSeen := (convSeen st)(a := x)\<rparr>) = detected lc st"
proof -
  have "fst (getAllMessagesForCurrentConv lc (st\<lparr>convSeen := (convSeen st)(a := x)\<rparr>)) =
        fst (getAllMessagesForCurrentConv lc st)"
    by (rule getAll_cong) simp_all
  with assms show ?thesis
    by (simp add: detected_def seenOf_def)
qed

lemma convPollTick_changed:
  assumes "getConversationKey (loc st) \<noteq> lastConv st"
  shows "listOf (convPollTick lc st) = []"
    "lastConv (convPollTick lc st) = getConversationKey (loc st)"
  using assms
  by (auto simp: convPollTick_def Let_def listOf_def setList_def split: option.splits)

text \<open>
  C5, as the script has it. The seen signatures are kept per conversation key: adding
  to the set of one key, and each of the script's operations, leaves the sets of all
  keys but the current one as they are, and what the mutation callback detects does
  not depend on them. When the conversation poll finds that the key has changed, the
  set of the old key stays as it is, the signatures of the page are added to the set
  of the new key (created empty when the key has none, kept when it has one), and the
  sidebar list is emptied.
\<close>

theorem seen_sets_are_per_conversation:
  "(a \<noteq> b \<longrightarrow> convSeen (seenAdd a st sig) b = convSeen st b) \<and>
   (key \<noteq> getConversationKey (loc st) \<longrightarrow>
      convSeen (initialSilentMark lc st) key = convSeen st key \<and>
      convSeen (snd (appendNewMessagesForCurrentConv lc st)) key = convSeen st key \<and>
      convSeen (toggleSidebar lc show st) key = convSeen st key \<and>
      convSeen (convPollTick lc st) key = convSeen st key \<and>
      detected lc (st\<lparr>convSeen := (convSeen st)(key := x)\<rparr>) = detected lc st) \<and>
   (getConversationKey (loc st) \<noteq> lastConv st \<longrightarrow>
      convSeen (convPollTick lc st) (lastConv st) = convSeen st (lastConv st) \<and>
      seenOf (convPollTick lc st) (getConversationKey (loc st)) =
        seenOf st (getConversationKey (loc st)) \<union>
        set (map signature (fst (getAllMessagesForCurrentConv lc st))) \<and>
      listOf (convPollTick lc st) = [] \<and>
      lastConv (convPollTick lc st) = getConversationKey (loc st))"
proof -
  have add: "a \<noteq> b \<longrightarrow> convSeen (seenAdd a st sig) b = convSeen st b"
    by (simp add: seenAdd_other)
  have toggle: "convSeen (toggleSidebar lc show st) key = convSeen st key"
    if "key \<noteq> getConversationKey (loc st)"
    using that by (cases "show") (simp_all add: toggleSidebar_True_other toggleSidebar_False_convSeen)
  have others: "key \<noteq> getConversationKey (loc st) \<longrightarrow>
      convSeen (initialSilentMark lc st) key = convSeen st key \<and>
      convSeen (snd (appendNewMessagesForCurrentConv lc st)) key = convSeen st key \<and>
      convSeen (toggleSidebar lc show st) key = convSeen st key \<and>
      convSeen (convPollTick lc st) key = convSeen st key \<and>
      detected lc (st\<lparr>convSeen := (convSeen st)(key := x)\<rparr>) = detected lc st"
    using toggle
    by (simp add: initialSilentMark_other append_other convPollTick_other detected_other_key)
  have change: "getConversationKey (loc st) \<noteq> lastConv st \<longrightarrow>
      convSeen (convPollTick lc st) (lastConv st) = convSeen st (lastConv st) \<and>
      seenOf (convPollTick lc st) (getConversationKey (loc st)) =
        seenOf st (getConversationKey (loc st)) \<union>
        set (map signature (fst (getAllMessagesForCurrentConv lc st))) \<and>
      listOf (convPollTick lc st) = [] \<and>
      lastConv (convPollTick lc st) = getConversationKey (loc st)"
    using convPollTick_other [of "lastConv st" st lc]
    by (simp add: convPollTick_seenOf convPollTick_changed)
  from add others change show ?thesis by blast
qed

lemmas run_defs = run_def readinessTick_def convPollTick_def setPage_def chatRootFound_def
  otherPage_def otherLoc_def entrySignatures_def detected_def

text \<open>
  The claim as it is written fails when the user returns to a conversation: its set is
  still registered and is used again, with a signature that no message of the page
  has.
\<close>

theorem returning_conversation_counterexample:
  "getConversationKey (loc returnedPage) \<noteq> lastConv returnedPage \<and>
   computedSignature (jss ''hello'') \<in>
     seenOf (convPollTick asciiLower returnedPage) (getConversationKey (loc returnedPage)) \<and>
   map signature (fst (getAllMessagesForCurrentConv asciiLower returnedPage)) =
     [computedSignature (jss ''new'')] \<and>
   computedSignature (jss ''hello'') \<noteq> computedSignature (jss ''new'')"
proof -
  have key: "getConversationKey (loc returnedPage) = getConversationKey chatLoc"
    by (simp add: returnedPage_def backPage_def run_defs)
  have last: "lastConv returnedPage = getConversationKey otherLoc"
    by (simp add: returnedPage_def backPage_def run_defs state_defs eval_defs)
  have ne: "getConversationKey chatLoc \<noteq> getConversationKey otherLoc"
    by (simp add: eval_defs otherLoc_def)
  have old: "computedSignature (jss ''hello'') \<in> seenOf returnedPage (getConversationKey chatLoc)"
    by (simp add: returnedPage_def backPage_def run_defs state_defs eval_defs)
  have page: "map signature (fst (getAllMessagesForCurrentConv asciiLower returnedPage)) =
     [computedSignature (jss ''new'')]"
    by (simp add: returnedPage_def backPage_def run_defs state_defs eval_defs)
  from old have "computedSignature (jss ''hello'') \<in>
     seenOf (convPollTick asciiLower returnedPage) (getConversationKey chatLoc)"
    by (auto simp: convPollTick_seenOf key)
  with key last ne page hashes_differ(1) show ?thesis by simp
qed

theorem seen_sets_are_per_conversation_witness:
  "getConversationKey (loc changedPage) = getConversationKey otherLoc \<and>
   lastConv changedPage = getConversationKey chatLoc \<and>
   getConversationKey otherLoc \<noteq> getConversationKey chatLoc \<and>
   entrySignatures (listOf changedPage) = [computedSignature (jss ''hi'')] \<and>
   convSeen changedPage (getConversationKey chatLoc) = Some {computedSignature (jss ''hi'')} \<and>
   convSeen (seenAdd (getConversationKey otherLoc) changedPage (computedSignature (jss ''bye'')))
     (getConversationKey chatLoc) = Some {computedSignature (jss ''hi'')} \<and>
   convSeen (snd (appendNewMessagesForCurrentConv asciiLower changedPage)) (getConversationKey chatLoc) =
     Some {computedSignature (jss ''hi'')} \<and>
   convSeen (convPollTick asciiLower changedPage) (getConversationKey chatLoc) =
     Some {computedSignature (jss ''hi'')} \<and>
   seenOf (convPollTick asciiLower changedPage) (getConversationKey otherLoc) =
     {computedSignature (jss ''bye'')} \<and>
   listOf (convPollTick asciiLower changedPage) = [] \<and>
   computedSignature (jss ''hi'') \<in> seenOf switchedPage (getConversationKey chatLoc) \<and>
   entrySignatures (listOf switchedPage) = [] \<and>
   entrySignatures (listOf (step asciiLower switchedPage Mutation)) = [computedSignature (jss ''hi'')]"
proof -
  have key: "getConversationKey (loc changedPage) = getConversationKey otherLoc"
    by (simp add: changedPage_def run_defs state_defs)
  have last: "lastConv changedPage = getConversationKey chatLoc"
    by (simp add: changedPage_def run_defs state_defs eval_defs)
  have ne: "getConversationKey otherLoc \<noteq> getConversationKey chatLoc"
    by (simp add: eval_defs otherLoc_def)
  have shown: "entrySignatures (listOf changedPage) = [computedSignature (jss ''hi'')]"
    by (simp add: changedPage_def run_defs state_defs eval_defs)
  have seenA: "convSeen changedPage (getConversationKey chatLoc) = Some {computedSignature (jss ''hi'')}"
    by (simp add: changedPage_def run_defs state_defs eval_defs)
  have seenB: "seenOf changedPage (getConversationKey otherLoc) = {}"
    by (simp add: changedPage_def run_defs state_defs eval_defs)
  have page: "map signature (fst (getAllMessagesForCurrentConv asciiLower changedPage)) =
     [computedSignature (jss ''bye'')]"
    by (simp add: changedPage_def run_defs state_defs eval_defs)
  have changed: "getConversationKey (loc changedPage) \<noteq> lastConv changedPage"
    using key last ne by simp
  have other: "getConversationKey chatLoc \<noteq> getConversationKey (loc changedPage)"
    using key ne by simp
  note t = seen_sets_are_per_conversation
    [of "getConversationKey otherLoc" "getConversationKey chatLoc" changedPage
        "computedSignature (jss ''bye'')" "getConversationKey chatLoc" asciiLower True]
  from t ne have
    "convSeen (seenAdd (getConversationKey otherLoc) changedPage (computedSignature (jss ''bye'')))
       (getConversationKey chatLoc) = convSeen changedPage (getConversationKey chatLoc)"
    by blast
  moreover from t other have
    "convSeen (snd (appendNewMessagesForCurrentConv asciiLower changedPage)) (getConversationKey chatLoc) =
       convSeen changedPage (getConversationKey chatLoc)"
    by blast
  ultimately have isolated:
    "convSeen (seenAdd (getConversationKey otherLoc) changedPage (computedSignature (jss ''bye'')))
       (getConversationKey chatLoc) = Some {computedSignature (jss ''hi'')}"
    "convSeen (snd (appendNewMessagesForCurrentConv asciiLower changedPage)) (getConversationKey chatLoc) =
       Some {computedSignature (jss ''hi'')}"
    unfolding seenA by simp_all
  from t changed have
    "convSeen (convPollTick asciiLower changedPage) (lastConv changedPage) =
       convSeen changedPage (lastConv changedPage)"
    "seenOf (convPollTick asciiLower changedPage) (getConversationKey (loc changedPage)) =
       seenOf changedPage (getConversationKey (loc changedPage)) \<union>
       set (map signature (fst (getAllMessagesForCurrentConv asciiLower changedPage)))"
    "listOf (convPollTick asciiLower changedPage) = []"
    by blast+
  then have poll:
    "convSeen (convPollTick asciiLower changedPage) (getConversationKey chatLoc) =
       Some {computedSignature (jss ''hi'')}"
    "seenOf (convPollTick asciiLower changedPage) (getConversationKey otherLoc) =
       {computedSignature (jss ''bye'')}"
    "listOf (convPollTick asciiLower changedPage) = []"
    unfolding key last seenA seenB page by simp_all
  have again: "computedSignature (jss ''hi'') \<in> seenOf switchedPage (getConversationKey chatLoc)"
    "entrySignatures (listOf switchedPage) = []"
    "entrySignatures (listOf (step asciiLower switchedPage Mutation)) = [computedSignature (jss ''hi'')]"
    by (simp_all add: switchedPage_def repeatedPage_def run_defs state_defs eval_defs)
  from key last ne shown seenA isolated poll again show ?thesis by blast
qed

subsection \<open>The sidebar list\<close>

lemma childIds_entries: "childIds cs = map entryDomId (entriesOf cs)"
  by (induction cs rule: childIds.induct) simp_all

lemma entriesOf_append: "entriesOf (cs @ ds) = entriesOf cs @ entriesOf ds"
  by (induction cs rule: entriesOf.induct) simp_all

lemma entriesOf_navItem [simp]:
  "entriesOf [navItem q] =
     [\<lparr>entryDomId = itemDomId q,
       entryText = (if itemText q = [] then jss ''Question'' else itemText q),
       entryItem = q\<rparr>]"
  by (simp add: navItem_def)

lemma itemDomId_eq: "itemDomId q = itemDomId q' \<longleftrightarrow> signature q = signature q'"
  by (simp add: itemDomId_def)

lemma itemDomId_not_injected: "itemDomId q \<notin> set (injectedIds st)"
  by (simp add: itemDomId_def injectedIds_def jss_def)

lemma itemDomId_outside:
  "itemDomId q \<in> set (outsideIds st) \<longleftrightarrow> itemDomId q \<in> set (map elemId (elements st))"
  using itemDomId_not_injected [of q st]
  by (auto simp: outsideIds_def itemDomId_def jss_def)

lemma renderList_wellformed:
  "\<forall>e \<in> set (entriesOf cs). entryDomId e = itemDomId (entryItem e) \<Longrightarrow>
   \<forall>e \<in> set (entriesOf (renderList out qs cs)). entryDomId e = itemDomId (entryItem e)"
proof (induction qs arbitrary: cs)
  case Nil
  then show ?case by simp
next
  case (Cons q qs)
  have "\<forall>e \<in> set (entriesOf (cs @ [navItem q])). entryDomId e = itemDomId (entryItem e)"
    using Cons.prems by (simp add: entriesOf_append)
  from Cons.IH [OF this] Cons.IH [OF Cons.prems] show ?case
    by simp
qed

lemma renderList_distinct:
  "distinct (childIds cs) \<Longrightarrow> distinct (childIds (renderList out qs cs))"
proof (induction qs arbitrary: cs)
  case Nil
  then show ?case by simp
next
  case (Cons q qs)
  show ?case
  proof (cases "itemDomId q \<in> set out \<union> set (childIds cs)")
    case True
    with Cons.IH [OF Cons.prems] show ?thesis by simp
  next
    case False
    with Cons.prems have "distinct (childIds (cs @ [navItem q]))"
      by (simp add: childIds_entries entriesOf_append)
    from Cons.IH [OF this] False show ?thesis by simp
  qed
qed

lemma childIds_signatures:
  "\<forall>e \<in> set (entriesOf cs). entryDomId e = itemDomId (entryItem e) \<Longrightarrow>
   itemDomId q \<in> set (childIds cs) \<longleftrightarrow> signature q \<in> set (entrySignatures cs)"
  by (auto simp: childIds_entries entrySignatures_def itemDomId_eq image_iff)

lemma renderList_signatures:
  "\<forall>e \<in> set (entriesOf cs). entryDomId e = itemDomId (entryItem e) \<Longrightarrow>
   set (entrySignatures (renderList out qs cs)) =
     set (entrySignatures cs) \<union> {signature q | q. q \<in> set qs \<and> itemDomId q \<notin> set out}"
proof (induction qs arbitrary: cs)
  case Nil
  show ?case by simp
next
  case (Cons q qs)
  show ?case
  proof (cases "itemDomId q \<in> set out \<union> set (childIds cs)")
    case True
    from Cons.IH [OF Cons.prems] True childIds_signatures [OF Cons.prems, of q]
    show ?thesis by auto
  next
    case False
    have wf: "\<forall>e \<in> set (entriesOf (cs @ [navItem q])). entryDomId e = itemDomId (entryItem e)"
      using Cons.prems by (simp add: entriesOf_append)
    have "entrySignatures (cs @ [navItem q]) = entrySignatures cs @ [signature q]"
      by (simp add: entrySignatures_def entriesOf_append)
    with Cons.IH [OF wf] False show ?thesis by auto
  qed
qed

lemma distinct_entrySignatures:
  assumes "\<forall>e \<in> set (entriesOf cs). entryDomId e = itemDomId (entryItem e)"
    and "distinct (childIds cs)"
  shows "distinct (entrySignatures cs)"
proof -
  have "childIds cs = map (\<lambda>s. jss ''cgpn-item-'' @ s) (entrySignatures cs)"
    using assms(1) by (simp add: childIds_entries entrySignatures_def itemDomId_def)
  with assms(2) show ?thesis
    by (simp add: distinct_map)
qed

lemma outsideIds_cong:
  assumes "elements st' = elements st" "toggleBtn st' = None \<longleftrightarrow> toggleBtn st = None"
    "sidebar st' = None \<longleftrightarrow> sidebar st = None" "styleEl st' = styleEl st"
  shows "outsideIds st' = outsideIds st"
  using assms by (simp add: outsideIds_def injectedIds_def)

lemma setList_present:
  assumes "sidebar st \<noteq> None"
  shows "listOf (setList cs st) = cs" "sidebar (setList cs st) \<noteq> None"
    "outsideIds (setList cs st) = outsideIds st"
  using assms by (auto simp: listOf_def setList_def outsideIds_def injectedIds_def)

lemma renderItems_list:
  "sidebar st \<noteq> None \<Longrightarrow>
   listOf (renderItems qs st) = renderList (outsideIds st) qs (listOf st)"
proof (induction qs arbitrary: st)
  case Nil
  show ?case by simp
next
  case (Cons q qs)
  show ?case
  proof (cases "hasElementById st (itemDomId q)")
    case True
    with Cons.IH [OF Cons.prems] show ?thesis
      by (simp add: hasElementById_def documentIds_def)
  next
    case False
    note p = setList_present [OF Cons.prems, of "listOf st @ [navItem q]"]
    from Cons.IH [OF p(2)] False show ?thesis
      by (simp add: hasElementById_def documentIds_def p(1,3))
  qed
qed

lemma updateSidebar_rebuild:
  assumes "sidebar st \<noteq> None"
  shows "listOf (updateSidebar qs False st) =
           (if qs = [] then [NavEmpty] else renderList (outsideIds st) qs [])"
proof -
  have e: "ensureSidebar st = st"
    using assms by (auto simp: ensureSidebar_def)
  note p = setList_present [OF assms, of "[]"]
  show ?thesis
    using renderItems_list [OF p(2), of qs] setList_present(1) [OF p(2), of "[NavEmpty]"]
    by (simp add: updateSidebar_def Let_def e p(1,3))
qed

lemma ensured_present:
  "toggleBtn (addStyles (ensureSidebar (ensureToggleButton st))) \<noteq> None"
  "sidebar (addStyles (ensureSidebar (ensureToggleButton st))) \<noteq> None"
  "styleEl (addStyles (ensureSidebar (ensureToggleButton st)))"
  "elements (addStyles (ensureSidebar (ensureToggleButton st))) = elements st"
  "loc (addStyles (ensureSidebar (ensureToggleButton st))) = loc st"
  "convSeen (addStyles (ensureSidebar (ensureToggleButton st))) = convSeen st"
  by (auto simp: addStyles_def ensureSidebar_def ensureToggleButton_def split: option.splits)

lemma toggleSidebar_False_fields:
  "listOf (toggleSidebar lc False st) = []"
  "elements (toggleSidebar lc False st) = elements st"
  "loc (toggleSidebar lc False st) = loc st"
  "\<not> sidebarVisible (toggleSidebar lc False st)"
  "toggleBtn (toggleSidebar lc False st) = Some False"
  using ensured_present(1,2) [of st]
  by (auto simp: toggleSidebar_def Let_def listOf_def setList_def setExpanded_def setDisplay_def
        sidebarVisible_def jss_def ensured_present(4,5))

text \<open>The state in which \<open>toggleSidebar true\<close> calls \<open>updateSidebar\<close>.\<close>

lemma toggleSidebar_True_unfold:
  "\<exists>st5. toggleSidebar lc True st =
           consoleLog (LogOpened (length (uniqueOrdered (fst (getAllMessagesForCurrentConv lc st)))))
             (updateSidebar (uniqueOrdered (fst (getAllMessagesForCurrentConv lc st))) False st5) \<and>
         sidebar st5 \<noteq> None \<and> toggleBtn st5 = Some True \<and> styleEl st5 \<and>
         elements st5 = elements (snd (getAllMessagesForCurrentConv lc st)) \<and> loc st5 = loc st \<and>
         sidebarVisible st5"
proof -
  define st1 where "st1 = addStyles (ensureSidebar (ensureToggleButton st))"
  define st2 where "st2 = setExpanded True (setDisplay (jss ''block'') st1)"
  define st3 where "st3 = snd (getAllMessagesForCurrentConv lc st2)"
  define key where "key = getConversationKey (loc st)"
  define unique where "unique = uniqueOrdered (fst (getAllMessagesForCurrentConv lc st))"
  define st5 where "st5 = foldl (seenAdd key) (snd (ensureConvSet key st3)) (map signature unique)"
  have p1: "toggleBtn st1 \<noteq> None" "sidebar st1 \<noteq> None" "styleEl st1"
    "elements st1 = elements st" "loc st1 = loc st"
    unfolding st1_def by (rule ensured_present)+
  have p2: "toggleBtn st2 = Some True" "sidebar st2 \<noteq> None" "styleEl st2"
    "elements st2 = elements st" "loc st2 = loc st" "sidebarVisible st2"
    using p1 by (auto simp: st2_def setExpanded_def setDisplay_def sidebarVisible_def)
  have items: "fst (getAllMessagesForCurrentConv lc st2) = fst (getAllMessagesForCurrentConv lc st)"
    using p2(5,4) by (rule getAll_cong)
  have els: "elements st3 = elements (snd (getAllMessagesForCurrentConv lc st))"
    unfolding st3_def using p2(5,4) by (rule getAll_cong)
  have p5: "sidebar st5 \<noteq> None" "toggleBtn st5 = Some True" "styleEl st5"
    "elements st5 = elements (snd (getAllMessagesForCurrentConv lc st))" "loc st5 = loc st"
    "sidebarVisible st5"
    using p2 els by (simp_all add: st5_def st3_def sidebarVisible_def)
  have "toggleSidebar lc True st =
          consoleLog (LogOpened (length unique)) (updateSidebar unique False st5)"
    by (simp add: toggleSidebar_def Let_def case_prod_beta st5_def st3_def
          key_def unique_def items [unfolded st2_def st1_def] st2_def st1_def)
  with p5 show ?thesis
    unfolding unique_def by blast
qed

lemma updateSidebar_fields:
  "sidebar st \<noteq> None \<Longrightarrow> sidebar (updateSidebar qs a st) \<noteq> None"
  "styleEl (updateSidebar qs a st) = styleEl st"
proof -
  have r: "sidebar s \<noteq> None \<Longrightarrow> sidebar (renderItems qs s) \<noteq> None" for s
    by (induction qs arbitrary: s) (auto simp: setList_def)
  show "sidebar st \<noteq> None \<Longrightarrow> sidebar (updateSidebar qs a st) \<noteq> None"
    using r [of "setList [] st"] r [of st]
    by (auto simp: updateSidebar_def Let_def ensureSidebar_def setList_def)
  show "styleEl (updateSidebar qs a st) = styleEl st"
    by (simp add: updateSidebar_def Let_def)
qed

lemma toggleSidebar_True_fields:
  "elements (toggleSidebar lc True st) = elements (snd (getAllMessagesForCurrentConv lc st))"
  "loc (toggleSidebar lc True st) = loc st"
  "outsideIds (toggleSidebar lc True st) =
     filter (\<lambda>i. i \<noteq> []) (map elemId (elements (snd (getAllMessagesForCurrentConv lc st)))) @
     jss ''cgpn-toggle'' #
     map jss [''chatgpt-navigator'', ''chatgpt-navigator-header'', ''chatgpt-navigator-title'',
              ''chatgpt-navigator-close'', ''chatgpt-navigator-list'', ''chatgpt-navigator-footer''] @
     [jss ''chatgpt-navigator-style'']"
  "listOf (toggleSidebar lc True st) =
     (if uniqueOrdered (fst (getAllMessagesForCurrentConv lc st)) = [] then [NavEmpty]
      else renderList (outsideIds (toggleSidebar lc True st))
             (uniqueOrdered (fst (getAllMessagesForCurrentConv lc st))) [])"
proof -
  from toggleSidebar_True_unfold [of lc st] obtain st5 where
    t: "toggleSidebar lc True st =
           consoleLog (LogOpened (length (uniqueOrdered (fst (getAllMessagesForCurrentConv lc st)))))
             (updateSidebar (uniqueOrdered (fst (getAllMessagesForCurrentConv lc st))) False st5)"
    and p: "sidebar st5 \<noteq> None" "toggleBtn st5 = Some True" "styleEl st5"
      "elements st5 = elements (snd (getAllMessagesForCurrentConv lc st))" "loc st5 = loc st"
    by blast
  show e: "elements (toggleSidebar lc True st) = elements (snd (getAllMessagesForCurrentConv lc st))"
    by (simp add: t p)
  show "loc (toggleSidebar lc True st) = loc st"
    by (simp add: t p)
  have o: "outsideIds (toggleSidebar lc True st) = outsideIds st5"
    using updateSidebar_fields(1)
        [OF p(1), of "uniqueOrdered (fst (getAllMessagesForCurrentConv lc st))" False] p
    by (intro outsideIds_cong) (auto simp: t updateSidebar_fields(2))
  show "outsideIds (toggleSidebar lc True st) =
     filter (\<lambda>i. i \<noteq> []) (map elemId (elements (snd (getAllMessagesForCurrentConv lc st)))) @
     jss ''cgpn-toggle'' #
     map jss [''chatgpt-navigator'', ''chatgpt-navigator-header'', ''chatgpt-navigator-title'',
              ''chatgpt-navigator-close'', ''chatgpt-navigator-list'', ''chatgpt-navigator-footer''] @
     [jss ''chatgpt-navigator-style'']"
    unfolding o using p by (auto simp: outsideIds_def injectedIds_def)
  show "listOf (toggleSidebar lc True st) =
     (if uniqueOrdered (fst (getAllMessagesForCurrentConv lc st)) = [] then [NavEmpty]
      else renderList (outsideIds (toggleSidebar lc True st))
             (uniqueOrdered (fst (getAllMessagesForCurrentConv lc st))) [])"
    unfolding o using updateSidebar_rebuild [OF p(1)]
    by (simp add: t listOf_def)
qed

text \<open>What an open shows is a function of the page alone, scanned before or not.\<close>

lemma open_determined:
  assumes "loc st' = loc st"
    and "elements st' = elements st \<or>
         elements st' = elements (snd (getAllMessagesForCurrentConv lc st))"
  shows "listOf (toggleSidebar lc True st') = listOf (toggleSidebar lc True st)"
    "elements (toggleSidebar lc True st') = elements (toggleSidebar lc True st)"
proof -
  have "fst (getAllMessagesForCurrentConv lc st') = fst (getAllMessagesForCurrentConv lc st) \<and>
        elements (snd (getAllMessagesForCurrentConv lc st')) =
          elements (snd (getAllMessagesForCurrentConv lc st))"
    using assms getAll_cong [of st' st lc] getAll_scanned [of st' st lc] by blast
  then show "listOf (toggleSidebar lc True st') = listOf (toggleSidebar lc True st)"
    "elements (toggleSidebar lc True st') = elements (toggleSidebar lc True st)"
    by (simp_all add: toggleSidebar_True_fields)
qed

lemma reopen_fields:
  "listOf (reopen lc st) = listOf (toggleSidebar lc True st)"
  "elements (reopen lc st) = elements (snd (getAllMessagesForCurrentConv lc st))"
  "loc (reopen lc st) = loc st"
proof -
  have l: "loc (toggleSidebar lc False st) = loc st"
    and e: "elements (toggleSidebar lc False st) = elements st"
    by (rule toggleSidebar_False_fields)+
  show "listOf (reopen lc st) = listOf (toggleSidebar lc True st)"
    unfolding reopen_def using l e by (intro open_determined(1)) simp_all
  have "elements (reopen lc st) = elements (toggleSidebar lc True st)"
    unfolding reopen_def using l e by (intro open_determined(2)) simp_all
  then show "elements (reopen lc st) = elements (snd (getAllMessagesForCurrentConv lc st))"
    by (simp add: toggleSidebar_True_fields)
  show "loc (reopen lc st) = loc st"
    by (simp add: reopen_def toggleSidebar_True_fields l)
qed

lemma reopen_funpow:
  "loc ((reopen lc ^^ n) st) = loc st \<and>
   (elements ((reopen lc ^^ n) st) = elements st \<or>
    elements ((reopen lc ^^ n) st) = elements (snd (getAllMessagesForCurrentConv lc st)))"
proof (induction n)
  case 0
  show ?case by simp
next
  case (Suc n)
  let ?s = "(reopen lc ^^ n) st"
  from Suc have l: "loc ?s = loc st" by simp
  from Suc have "elements (snd (getAllMessagesForCurrentConv lc ?s)) =
      elements (snd (getAllMessagesForCurrentConv lc st))"
    using getAll_cong(2) [of ?s st lc] getAll_scanned(2) [of ?s st lc] by blast
  then show ?case
    by (simp add: reopen_fields l)
qed

lemma reopen_funpow_list:
  "listOf ((reopen lc ^^ Suc n) st) = listOf (toggleSidebar lc True st)"
proof -
  have "listOf ((reopen lc ^^ Suc n) st) = listOf (toggleSidebar lc True ((reopen lc ^^ n) st))"
    by (simp add: reopen_fields)
  also have "\<dots> = listOf (toggleSidebar lc True st)"
    using reopen_funpow [where lc = lc and n = n and st = st]
    by (intro open_determined(1)) simp_all
  finally show ?thesis .
qed

lemma open_wellformed:
  "\<forall>e \<in> set (entriesOf (listOf (toggleSidebar lc True st))).
     entryDomId e = itemDomId (entryItem e)"
  "distinct (childIds (listOf (toggleSidebar lc True st)))"
  using renderList_wellformed [of "[]" "outsideIds (toggleSidebar lc True st)"
      "uniqueOrdered (fst (getAllMessagesForCurrentConv lc st))"]
    renderList_distinct [of "[]" "outsideIds (toggleSidebar lc True st)"
      "uniqueOrdered (fst (getAllMessagesForCurrentConv lc st))"]
  by (simp_all add: toggleSidebar_True_fields(4))

text \<open>
  C3. The entries that opening the panel renders have pairwise different signatures
  (and ids): the id of an entry is \<open>cgpn-item-\<close> and the signature of its item, and
  \<open>updateSidebar\<close> skips an item whose entry id the document already has.
\<close>

theorem rebuild_entries_unique:
  "distinct (entrySignatures (listOf (toggleSidebar lc True st))) \<and>
   distinct (childIds (listOf (toggleSidebar lc True st))) \<and>
   (\<forall>e \<in> set (entriesOf (listOf (toggleSidebar lc True st))).
      entryDomId e = jss ''cgpn-item-'' @ signature (entryItem e))"
  using open_wellformed [of lc st] distinct_entrySignatures [OF open_wellformed, of lc st]
  by (simp add: itemDomId_def)

theorem rebuild_entries_unique_witness:
  "map signature (uniqueOrdered (fst (getAllMessagesForCurrentConv asciiLower sharedSignaturePage))) =
     [jss ''s_1'', jss ''s_1''] \<and>
   entrySignatures (listOf (toggleSidebar asciiLower True sharedSignaturePage)) = [jss ''s_1''] \<and>
   distinct (entrySignatures (listOf (toggleSidebar asciiLower True sharedSignaturePage))) \<and>
   map entryDomId (entriesOf (listOf (toggleSidebar asciiLower True sharedSignaturePage))) =
     [jss ''cgpn-item-s_1'']"
proof -
  have batch: "map signature
      (uniqueOrdered (fst (getAllMessagesForCurrentConv asciiLower sharedSignaturePage))) =
     [jss ''s_1'', jss ''s_1'']"
    by (simp add: sharedSignaturePage_def eval_defs)
  have shown: "entrySignatures (listOf (toggleSidebar asciiLower True sharedSignaturePage)) =
     [jss ''s_1'']"
    by (simp add: sharedSignaturePage_def eval_defs state_defs entrySignatures_def)
  have ids: "map entryDomId (entriesOf (listOf (toggleSidebar asciiLower True sharedSignaturePage))) =
     [jss ''cgpn-item-s_1'']"
    by (simp add: sharedSignaturePage_def eval_defs state_defs)
  from rebuild_entries_unique [of asciiLower sharedSignaturePage] batch shown ids
  show ?thesis by blast
qed

lemma open_signatures:
  "set (entrySignatures (listOf (toggleSidebar lc True st))) =
     {signature q | q. q \<in> set (uniqueOrdered (fst (getAllMessagesForCurrentConv lc st))) \<and>
        itemDomId q \<notin> set (map elemId (elements (snd (getAllMessagesForCurrentConv lc st))))}"
proof (cases "uniqueOrdered (fst (getAllMessagesForCurrentConv lc st)) = []")
  case True
  then show ?thesis
    by (simp add: toggleSidebar_True_fields(4) entrySignatures_def)
next
  case False
  have "itemDomId q \<in> set (outsideIds (toggleSidebar lc True st)) \<longleftrightarrow>
        itemDomId q \<in> set (map elemId (elements (snd (getAllMessagesForCurrentConv lc st))))" for q
    by (simp only: itemDomId_outside toggleSidebar_True_fields(1))
  with renderList_signatures [of "[]" "outsideIds (toggleSidebar lc True st)"
      "uniqueOrdered (fst (getAllMessagesForCurrentConv lc st))"] False
  show ?thesis
    by (simp add: toggleSidebar_True_fields(4) entrySignatures_def)
qed

lemma reopen_after_open:
  "listOf ((reopen lc ^^ n) (toggleSidebar lc True st)) = listOf (toggleSidebar lc True st)"
proof (cases n)
  case 0
  then show ?thesis by simp
next
  case (Suc m)
  have "listOf ((reopen lc ^^ Suc m) (toggleSidebar lc True st)) =
        listOf (toggleSidebar lc True (toggleSidebar lc True st))"
    by (rule reopen_funpow_list)
  also have "\<dots> = listOf (toggleSidebar lc True st)"
    by (rule open_determined(1)) (simp_all add: toggleSidebar_True_fields)
  finally show ?thesis using Suc by simp
qed

text \<open>
  C4, as the script has it. Closing the panel empties the list. Opening it rebuilds
  the list from the page alone (two states with the same address and elements give the
  same list). The entries have pairwise different signatures, and their signatures are
  those of the items that survive the near-duplicate merge of the scan, but for an
  item whose entry id is already the id of an element of the page; so the signature of
  a message that the merge absorbs has an entry only when an item that survives has
  the same signature. After an open, any number of close-and-open rounds gives the
  identical list.
\<close>

theorem reopen_rebuilds_same_list:
  "listOf (toggleSidebar lc False st) = [] \<and>
   (loc st' = loc st \<and> elements st' = elements st \<longrightarrow>
      listOf (toggleSidebar lc True st') = listOf (toggleSidebar lc True st)) \<and>
   listOf ((reopen lc ^^ n) (toggleSidebar lc True st)) = listOf (toggleSidebar lc True st) \<and>
   distinct (entrySignatures (listOf (toggleSidebar lc True st))) \<and>
   set (entrySignatures (listOf (toggleSidebar lc True st))) =
     {signature q | q. q \<in> set (uniqueOrdered (fst (getAllMessagesForCurrentConv lc st))) \<and>
        itemDomId q \<notin> set (map elemId (elements (snd (getAllMessagesForCurrentConv lc st))))} \<and>
   (it \<in> set (fst (getAllMessagesForCurrentConv lc st)) \<and>
    signature it \<in> set (entrySignatures (listOf (toggleSidebar lc True st))) \<longrightarrow>
      (\<exists>q \<in> set (uniqueOrdered (fst (getAllMessagesForCurrentConv lc st))).
         signature q = signature it))"
proof -
  have same: "loc st' = loc st \<and> elements st' = elements st \<longrightarrow>
      listOf (toggleSidebar lc True st') = listOf (toggleSidebar lc True st)"
    using open_determined(1) [of st' st lc] by blast
  have absorbed: "it \<in> set (fst (getAllMessagesForCurrentConv lc st)) \<and>
    signature it \<in> set (entrySignatures (listOf (toggleSidebar lc True st))) \<longrightarrow>
      (\<exists>q \<in> set (uniqueOrdered (fst (getAllMessagesForCurrentConv lc st))).
         signature q = signature it)"
    unfolding open_signatures by auto
  from toggleSidebar_False_fields(1) [of lc st] same
    reopen_after_open [where lc = lc and n = n and st = st]
    distinct_entrySignatures [OF open_wellformed, of lc st] open_signatures [of lc st] absorbed
  show ?thesis by blast
qed

lemma helloPage_open:
  "entrySignatures (listOf (toggleSidebar asciiLower True helloPage)) =
     [computedSignature (jss ''hello world'')]"
  "length (listOf (toggleSidebar asciiLower True helloPage)) = 1"
  by (simp_all add: helloPage_def eval_defs state_defs entrySignatures_def)

lemma prefixPage_open:
  "entrySignatures (listOf (toggleSidebar asciiLower True prefixPage)) =
     [computedSignature (jss ''hello'')]"
  by (simp add: prefixPage_def eval_defs state_defs entrySignatures_def)

theorem reopen_rebuilds_same_list_witness:
  "listOf (toggleSidebar asciiLower False (toggleSidebar asciiLower True helloPage)) = [] \<and>
   listOf (toggleSidebar asciiLower True (toggleSidebar asciiLower False helloPage)) =
     listOf (toggleSidebar asciiLower True helloPage) \<and>
   listOf ((reopen asciiLower ^^ 3) (toggleSidebar asciiLower True helloPage)) =
     listOf (toggleSidebar asciiLower True helloPage) \<and>
   entrySignatures (listOf ((reopen asciiLower ^^ 3) (toggleSidebar asciiLower True helloPage))) =
     [computedSignature (jss ''hello world'')] \<and>
   length (listOf ((reopen asciiLower ^^ 3) (toggleSidebar asciiLower True helloPage))) = 1 \<and>
   signature (fst (getAllMessagesForCurrentConv asciiLower helloPage) ! 1) \<in>
     set (entrySignatures (listOf (toggleSidebar asciiLower True helloPage))) \<and>
   (\<exists>q \<in> set (uniqueOrdered (fst (getAllMessagesForCurrentConv asciiLower helloPage))).
      signature q = signature (fst (getAllMessagesForCurrentConv asciiLower helloPage) ! 1)) \<and>
   signature (fst (getAllMessagesForCurrentConv asciiLower prefixPage) ! 1) \<notin>
     set (entrySignatures (listOf (toggleSidebar asciiLower True prefixPage)))"
proof -
  let ?items = "fst (getAllMessagesForCurrentConv asciiLower helloPage)"
  have closed: "loc (toggleSidebar asciiLower False helloPage) = loc helloPage \<and>
      elements (toggleSidebar asciiLower False helloPage) = elements helloPage"
    by (simp add: toggleSidebar_False_fields)
  have a: "listOf (toggleSidebar asciiLower False (toggleSidebar asciiLower True helloPage)) = []"
    using reopen_rebuilds_same_list
      [of asciiLower "toggleSidebar asciiLower True helloPage" helloPage 0]
    by blast
  have b: "listOf (toggleSidebar asciiLower True (toggleSidebar asciiLower False helloPage)) =
     listOf (toggleSidebar asciiLower True helloPage)"
    using reopen_rebuilds_same_list
      [of asciiLower helloPage "toggleSidebar asciiLower False helloPage" 0] closed
    by blast
  have c: "listOf ((reopen asciiLower ^^ 3) (toggleSidebar asciiLower True helloPage)) =
     listOf (toggleSidebar asciiLower True helloPage)"
    using reopen_rebuilds_same_list [of asciiLower helloPage helloPage 3]
    by blast
  have mem: "?items ! 1 \<in> set ?items"
    by (simp add: helloPage_batch(2))
  have sig1: "signature (?items ! 1) = computedSignature (jss ''hello world'')"
    by (simp add: eval_defs helloPage_def)
  then have shown: "signature (?items ! 1) \<in>
      set (entrySignatures (listOf (toggleSidebar asciiLower True helloPage)))"
    by (simp add: helloPage_open(1))
  from reopen_rebuilds_same_list [of asciiLower helloPage helloPage 0 "?items ! 1"] mem shown
  have d: "\<exists>q \<in> set (uniqueOrdered ?items). signature q = signature (?items ! 1)"
    by blast
  have "signature (fst (getAllMessagesForCurrentConv asciiLower prefixPage) ! 1) =
      computedSignature (jss ''hello world'')"
    using arg_cong [OF prefixPage_batch(3), of "\<lambda>xs. xs ! 1"]
      arg_cong [OF prefixPage_batch(3), of length] by simp
  then have e: "signature (fst (getAllMessagesForCurrentConv asciiLower prefixPage) ! 1) \<notin>
      set (entrySignatures (listOf (toggleSidebar asciiLower True prefixPage)))"
    using hashes_differ(2) by (simp add: prefixPage_open)
  from a b c helloPage_open shown d e show ?thesis by simp
qed

text \<open>
  The claim as it is written fails on two messages of which one continues the other:
  after the open the elements carry two different signatures and the panel has one
  entry.
\<close>

theorem one_entry_per_signature_counterexample:
  "map navSignature (elements (reopen asciiLower prefixPage)) =
     [Some (computedSignature (jss ''hello'')), Some (computedSignature (jss ''hello world''))] \<and>
   computedSignature (jss ''hello'') \<noteq> computedSignature (jss ''hello world'') \<and>
   entrySignatures (listOf (reopen asciiLower prefixPage)) = [computedSignature (jss ''hello'')]"
proof -
  have els: "map navSignature (elements (snd (getAllMessagesForCurrentConv asciiLower prefixPage))) =
     [Some (computedSignature (jss ''hello'')), Some (computedSignature (jss ''hello world''))]"
    by (simp add: prefixPage_def eval_defs)
  have shown: "entrySignatures (listOf (toggleSidebar asciiLower True prefixPage)) =
     [computedSignature (jss ''hello'')]"
    by (simp add: prefixPage_def eval_defs state_defs entrySignatures_def)
  from els shown hashes_differ(2) show ?thesis
    by (simp add: reopen_fields)
qed

end
